theory Spec2Isabelle
  imports Main "HOL-Library.Word"
begin

unbundle bit_operations_syntax

section \<open>Common definitions (canfilter.hpp)\<close>

type_synonym u8 = "8 word"
type_synonym u32 = "32 word"

text \<open>The error codes of \<^verbatim>\<open>canfilter_error_t\<close>.\<close>

datatype canfilter_error_t =
    CANFILTER_SUCCESS
  | CANFILTER_ERROR_PARAM
  | CANFILTER_ERROR_FULL
  | CANFILTER_ERROR_PLATFORM

text \<open>The controller types of \<^verbatim>\<open>canfilter_hardware_t\<close>, as the integers the enum gives them.\<close>

definition CANFILTER_DEV_NONE :: u32 where "CANFILTER_DEV_NONE = 0"
definition CANFILTER_DEV_BXCAN_F0 :: u32 where "CANFILTER_DEV_BXCAN_F0 = 1"
definition CANFILTER_DEV_BXCAN_F4 :: u32 where "CANFILTER_DEV_BXCAN_F4 = 2"
definition CANFILTER_DEV_FDCAN_G0 :: u32 where "CANFILTER_DEV_FDCAN_G0 = 3"
definition CANFILTER_DEV_FDCAN_H7 :: u32 where "CANFILTER_DEV_FDCAN_H7 = 4"

definition max_std_id :: u32 where "max_std_id = 0x7FF"
definition max_ext_id :: u32 where "max_ext_id = 0x1FFFFFFF"

section \<open>FDCAN back-end (canfilter\_fdcan.hpp, canfilter\_fdcan.cpp)\<close>

text \<open>
  The template parameters of \<^verbatim>\<open>canfilter_fdcan<max_std_filter, max_ext_filter, dev_val>\<close>,
  all three \<^verbatim>\<open>uint32_t\<close>.
\<close>

record fdcan_cfg =
  max_std_filter :: u32
  max_ext_filter :: u32
  fd_dev_val :: u32

definition fdcan_g0 :: fdcan_cfg where
  "fdcan_g0 = \<lparr>max_std_filter = 28, max_ext_filter = 8, fd_dev_val = CANFILTER_DEV_FDCAN_G0\<rparr>"

definition fdcan_h7 :: fdcan_cfg where
  "fdcan_h7 = \<lparr>max_std_filter = 128, max_ext_filter = 64, fd_dev_val = CANFILTER_DEV_FDCAN_H7\<rparr>"

text \<open>
  The hardware image \<^verbatim>\<open>hw_t\<close>: the counters are \<^verbatim>\<open>uint8_t\<close>, \<^verbatim>\<open>std_filter\<close> has
  \<^verbatim>\<open>max_std_filter\<close> words and \<^verbatim>\<open>ext_filter\<close> has \<^verbatim>\<open>max_ext_filter\<close> pairs of words.
\<close>

record fdcan_hw =
  fd_dev :: u8
  std_filter_nbr :: u8
  ext_filter_nbr :: u8
  std_filter :: "u32 list"
  ext_filter :: "(u32 \<times> u32) list"

text \<open>The builder object: the image and the two accumulators of pending single IDs.\<close>

record fdcan =
  fd_hw_config :: fdcan_hw
  ext_id :: "u32 list"
  ext_id_count :: u8
  std_id :: "u32 list"
  std_id_count :: u8

definition SFT_RANGE :: u32 where "SFT_RANGE = 0"
definition SFT_DUAL :: u32 where "SFT_DUAL = 1"
definition SFEC_RX_FIFO0 :: u32 where "SFEC_RX_FIFO0 = 1"
definition EFT_RANGE :: u32 where "EFT_RANGE = 0"
definition EFT_DUAL :: u32 where "EFT_DUAL = 1"
definition EFEC_RX_FIFO0 :: u32 where "EFEC_RX_FIFO0 = 1"

text \<open>\<^verbatim>\<open>hw_t()\<close> zeroes the whole structure.\<close>

definition fdcan_hw_t :: "fdcan_cfg \<Rightarrow> fdcan_hw" where
  "fdcan_hw_t cfg =
     \<lparr>fd_dev = 0, std_filter_nbr = 0, ext_filter_nbr = 0,
      std_filter = replicate (unat (max_std_filter cfg)) 0,
      ext_filter = replicate (unat (max_ext_filter cfg)) (0, 0)\<rparr>"

definition fdcan_emit_std_id :: "fdcan_cfg \<Rightarrow> fdcan \<Rightarrow> u32 \<Rightarrow> u32 \<Rightarrow> canfilter_error_t \<times> fdcan" where
  "fdcan_emit_std_id cfg s id1 id2 =
     (let hw = fd_hw_config s in
      if ucast (std_filter_nbr hw) \<ge> max_std_filter cfg then (CANFILTER_ERROR_FULL, s)
      else if id1 > max_std_id \<or> id2 > max_std_id then (CANFILTER_ERROR_PARAM, s)
      else
        let sfr = push_bit 30 SFT_DUAL OR push_bit 27 SFEC_RX_FIFO0 OR push_bit 16 id1 OR id2
        in (CANFILTER_SUCCESS,
            s\<lparr>fd_hw_config := hw\<lparr>std_filter := (std_filter hw)[unat (std_filter_nbr hw) := sfr],
                                  std_filter_nbr := std_filter_nbr hw + 1\<rparr>\<rparr>))"

definition fdcan_emit_std_range :: "fdcan_cfg \<Rightarrow> fdcan \<Rightarrow> u32 \<Rightarrow> u32 \<Rightarrow> canfilter_error_t \<times> fdcan" where
  "fdcan_emit_std_range cfg s id1 id2 =
     (let hw = fd_hw_config s in
      if ucast (std_filter_nbr hw) \<ge> max_std_filter cfg then (CANFILTER_ERROR_FULL, s)
      else if id1 > max_std_id \<or> id2 > max_std_id \<or> id1 > id2 then (CANFILTER_ERROR_PARAM, s)
      else
        let sfr = push_bit 30 SFT_RANGE OR push_bit 27 SFEC_RX_FIFO0 OR push_bit 16 id1 OR id2
        in (CANFILTER_SUCCESS,
            s\<lparr>fd_hw_config := hw\<lparr>std_filter := (std_filter hw)[unat (std_filter_nbr hw) := sfr],
                                  std_filter_nbr := std_filter_nbr hw + 1\<rparr>\<rparr>))"

definition fdcan_emit_ext_id :: "fdcan_cfg \<Rightarrow> fdcan \<Rightarrow> u32 \<Rightarrow> u32 \<Rightarrow> canfilter_error_t \<times> fdcan" where
  "fdcan_emit_ext_id cfg s id1 id2 =
     (let hw = fd_hw_config s in
      if ucast (ext_filter_nbr hw) \<ge> max_ext_filter cfg then (CANFILTER_ERROR_FULL, s)
      else if id1 > max_ext_id \<or> id2 > max_ext_id then (CANFILTER_ERROR_PARAM, s)
      else
        (CANFILTER_SUCCESS,
         s\<lparr>fd_hw_config := hw\<lparr>ext_filter := (ext_filter hw)[unat (ext_filter_nbr hw) :=
                                   (push_bit 29 EFEC_RX_FIFO0 OR id1, push_bit 30 EFT_DUAL OR id2)],
                               ext_filter_nbr := ext_filter_nbr hw + 1\<rparr>\<rparr>))"

definition fdcan_emit_ext_range :: "fdcan_cfg \<Rightarrow> fdcan \<Rightarrow> u32 \<Rightarrow> u32 \<Rightarrow> canfilter_error_t \<times> fdcan" where
  "fdcan_emit_ext_range cfg s id1 id2 =
     (let hw = fd_hw_config s in
      if ucast (ext_filter_nbr hw) \<ge> max_ext_filter cfg then (CANFILTER_ERROR_FULL, s)
      else if id1 > max_ext_id \<or> id2 > max_ext_id \<or> id1 > id2 then (CANFILTER_ERROR_PARAM, s)
      else
        (CANFILTER_SUCCESS,
         s\<lparr>fd_hw_config := hw\<lparr>ext_filter := (ext_filter hw)[unat (ext_filter_nbr hw) :=
                                   (push_bit 29 EFEC_RX_FIFO0 OR id1, push_bit 30 EFT_RANGE OR id2)],
                               ext_filter_nbr := ext_filter_nbr hw + 1\<rparr>\<rparr>))"

text \<open>
  \<^verbatim>\<open>begin()\<close> overwrites the image and both counters; the accumulator arrays keep whatever
  they held.
\<close>

definition fdcan_begin :: "fdcan_cfg \<Rightarrow> fdcan \<Rightarrow> canfilter_error_t \<times> fdcan" where
  "fdcan_begin cfg s =
     (CANFILTER_SUCCESS,
      s\<lparr>fd_hw_config := (fdcan_hw_t cfg)\<lparr>fd_dev := ucast (fd_dev_val cfg),
                                          std_filter_nbr := 0, ext_filter_nbr := 0\<rparr>,
        std_id_count := 0, ext_id_count := 0\<rparr>)"

definition fdcan_end :: "fdcan_cfg \<Rightarrow> fdcan \<Rightarrow> canfilter_error_t \<times> fdcan" where
  "fdcan_end cfg s =
     (let (err, s1) = (if std_id_count s \<noteq> 0 then fdcan_emit_std_id cfg s (std_id s ! 0) (std_id s ! 1)
                       else (CANFILTER_SUCCESS, s))
      in if ext_id_count s1 \<noteq> 0 \<and> err = CANFILTER_SUCCESS
         then fdcan_emit_ext_id cfg s1 (ext_id s1 ! 0) (ext_id s1 ! 1)
         else (err, s1))"

definition fdcan_add_std_id :: "fdcan_cfg \<Rightarrow> fdcan \<Rightarrow> u32 \<Rightarrow> canfilter_error_t \<times> fdcan" where
  "fdcan_add_std_id cfg s ident =
     (if ident > max_std_id \<or> std_id_count s > 1 then (CANFILTER_ERROR_PARAM, s)
      else
        let s1 = s\<lparr>std_id := (std_id s)[unat (std_id_count s) := ident],
                   std_id_count := std_id_count s + 1\<rparr>
        in if std_id_count s1 = 1 then (CANFILTER_SUCCESS, s1\<lparr>std_id := (std_id s1)[1 := ident]\<rparr>)
           else
             let (err, s2) = fdcan_emit_std_id cfg s1 (std_id s1 ! 0) (std_id s1 ! 1)
             in (err, s2\<lparr>std_id_count := 0\<rparr>))"

definition fdcan_add_ext_id :: "fdcan_cfg \<Rightarrow> fdcan \<Rightarrow> u32 \<Rightarrow> canfilter_error_t \<times> fdcan" where
  "fdcan_add_ext_id cfg s ident =
     (if ident > max_ext_id \<or> ext_id_count s > 1 then (CANFILTER_ERROR_PARAM, s)
      else
        let s1 = s\<lparr>ext_id := (ext_id s)[unat (ext_id_count s) := ident],
                   ext_id_count := ext_id_count s + 1\<rparr>
        in if ext_id_count s1 = 1 then (CANFILTER_SUCCESS, s1\<lparr>ext_id := (ext_id s1)[1 := ident]\<rparr>)
           else
             let (err, s2) = fdcan_emit_ext_id cfg s1 (ext_id s1 ! 0) (ext_id s1 ! 1)
             in (err, s2\<lparr>ext_id_count := 0\<rparr>))"

definition fdcan_add_std_range :: "fdcan_cfg \<Rightarrow> fdcan \<Rightarrow> u32 \<Rightarrow> u32 \<Rightarrow> canfilter_error_t \<times> fdcan" where
  "fdcan_add_std_range cfg s begin end =
     (if begin > max_std_id \<or> end > max_std_id then (CANFILTER_ERROR_PARAM, s)
      else if begin \<le> end then fdcan_emit_std_range cfg s begin end
      else fdcan_emit_std_range cfg s end begin)"

definition fdcan_add_ext_range :: "fdcan_cfg \<Rightarrow> fdcan \<Rightarrow> u32 \<Rightarrow> u32 \<Rightarrow> canfilter_error_t \<times> fdcan" where
  "fdcan_add_ext_range cfg s begin end =
     (if begin > max_ext_id \<or> end > max_ext_id then (CANFILTER_ERROR_PARAM, s)
      else if begin \<le> end then fdcan_emit_ext_range cfg s begin end
      else fdcan_emit_ext_range cfg s end begin)"

text \<open>
  A freshly constructed builder: the counters have the default member initialiser 0, the
  accumulator arrays have two slots each (their contents are not initialised in the source;
  the first \<^verbatim>\<open>add\<close> overwrites both slots before any is read).
\<close>

definition fdcan_new :: "fdcan_cfg \<Rightarrow> fdcan" where
  "fdcan_new cfg =
     \<lparr>fd_hw_config = fdcan_hw_t cfg, ext_id = [0, 0], ext_id_count = 0,
      std_id = [0, 0], std_id_count = 0\<rparr>"


section \<open>bxCAN back-end (canfilter\_bxcan.hpp, canfilter\_bxcan.cpp)\<close>

text \<open>
  The template parameters of \<^verbatim>\<open>canfilter_bxcan<max_banks_t, dev_val>\<close>, both
  \<^verbatim>\<open>uint8_t\<close>, and the two instantiations.
\<close>

record bxcan_cfg =
  max_banks :: u8
  dev_val :: u8

definition bxcan_f0 :: bxcan_cfg where
  "bxcan_f0 = \<lparr>max_banks = 14, dev_val = ucast CANFILTER_DEV_BXCAN_F0\<rparr>"

definition bxcan_f4 :: bxcan_cfg where
  "bxcan_f4 = \<lparr>max_banks = 28, dev_val = ucast CANFILTER_DEV_BXCAN_F4\<rparr>"

text \<open>
  The hardware image \<^verbatim>\<open>hw_t\<close> (the three reserved bytes are never written and are left
  out): four global registers and the arrays \<^verbatim>\<open>fr1\<close>, \<^verbatim>\<open>fr2\<close> of \<^verbatim>\<open>max_banks\<close> words.
\<close>

record bxcan_hw =
  dev :: u8
  fs1r :: u32
  fm1r :: u32
  ffa1r :: u32
  fa1r :: u32
  fr1 :: "u32 list"
  fr2 :: "u32 list"

text \<open>
  The builder object. An entry of \<^verbatim>\<open>std_mask\<close> is the pair \<open>(id, mask)\<close> of the source's
  \<^verbatim>\<open>std_mask_t\<close>.
\<close>

record bxcan =
  hw_config :: bxcan_hw
  bank :: u32
  ext_list :: "u32 list"
  ext_list_count :: u32
  std_mask :: "(u32 \<times> u32) list"
  std_mask_count :: u32
  std_list :: "u32 list"
  std_list_count :: u32

definition bxcan_hw_t :: "bxcan_cfg \<Rightarrow> bxcan_hw" where
  "bxcan_hw_t cfg =
     \<lparr>dev = 0, fs1r = 0, fm1r = 0, ffa1r = 0, fa1r = 0,
      fr1 = replicate (unat (max_banks cfg)) 0,
      fr2 = replicate (unat (max_banks cfg)) 0\<rparr>"

text \<open>
  A freshly constructed builder: \<^verbatim>\<open>bank\<close> and the three counters have the default member
  initialiser 0 and \<^verbatim>\<open>hw_t()\<close> zeroes the image. The accumulator arrays are not
  initialised in the source; the first \<^verbatim>\<open>add\<close> overwrites every slot before any is read.
\<close>

definition bxcan_new :: "bxcan_cfg \<Rightarrow> bxcan" where
  "bxcan_new cfg =
     \<lparr>hw_config = bxcan_hw_t cfg, bank = 0,
      ext_list = [0, 0], ext_list_count = 0,
      std_mask = [(0, 0), (0, 0)], std_mask_count = 0,
      std_list = [0, 0, 0, 0], std_list_count = 0\<rparr>"

subsection \<open>Filter emission\<close>

text \<open>
  The common tail of the four emitters: store the two bank registers, set the bank's bits
  in the global registers and advance \<^verbatim>\<open>bank\<close>. \<open>scale32\<close> and \<open>list_mode\<close> say whether the
  bit of \<^verbatim>\<open>fs1r\<close> and of \<^verbatim>\<open>fm1r\<close> is set (\<^verbatim>\<open>|=\<close>) or cleared (\<^verbatim>\<open>&= ~\<close>).
\<close>

definition write_bank :: "bxcan \<Rightarrow> u32 \<Rightarrow> u32 \<Rightarrow> bool \<Rightarrow> bool \<Rightarrow> bxcan" where
  "write_bank s v1 v2 scale32 list_mode =
     (let hw = hw_config s; b = unat (bank s); bit_b = (push_bit b 1 :: u32)
      in s\<lparr>hw_config := hw\<lparr>fr1 := (fr1 hw)[b := v1],
                            fr2 := (fr2 hw)[b := v2],
                            fs1r := (if scale32 then fs1r hw OR bit_b else fs1r hw AND NOT bit_b),
                            fm1r := (if list_mode then fm1r hw OR bit_b else fm1r hw AND NOT bit_b),
                            fa1r := fa1r hw OR bit_b\<rparr>,
           bank := bank s + 1\<rparr>)"

definition bxcan_emit_std_list ::
  "bxcan_cfg \<Rightarrow> bxcan \<Rightarrow> u32 \<Rightarrow> u32 \<Rightarrow> u32 \<Rightarrow> u32 \<Rightarrow> canfilter_error_t \<times> bxcan" where
  "bxcan_emit_std_list cfg s id1 id2 id3 id4 =
     (if bank s \<ge> ucast (max_banks cfg) then (CANFILTER_ERROR_FULL, s)
      else if id1 > max_std_id \<or> id2 > max_std_id \<or> id3 > max_std_id \<or> id4 > max_std_id
      then (CANFILTER_ERROR_PARAM, s)
      else (CANFILTER_SUCCESS,
            write_bank s (push_bit 21 id2 OR push_bit 5 id1) (push_bit 21 id4 OR push_bit 5 id3)
              False True))"

definition bxcan_emit_std_mask ::
  "bxcan_cfg \<Rightarrow> bxcan \<Rightarrow> u32 \<Rightarrow> u32 \<Rightarrow> u32 \<Rightarrow> u32 \<Rightarrow> canfilter_error_t \<times> bxcan" where
  "bxcan_emit_std_mask cfg s id1 mask1 id2 mask2 =
     (if bank s \<ge> ucast (max_banks cfg) then (CANFILTER_ERROR_FULL, s)
      else if id1 > max_std_id \<or> mask1 > max_std_id \<or> id2 > max_std_id \<or> mask2 > max_std_id
      then (CANFILTER_ERROR_PARAM, s)
      else (CANFILTER_SUCCESS,
            write_bank s (push_bit 21 mask1 OR push_bit 5 id1) (push_bit 21 mask2 OR push_bit 5 id2)
              False False))"

definition bxcan_emit_ext_list ::
  "bxcan_cfg \<Rightarrow> bxcan \<Rightarrow> u32 \<Rightarrow> u32 \<Rightarrow> canfilter_error_t \<times> bxcan" where
  "bxcan_emit_ext_list cfg s id1 id2 =
     (if bank s \<ge> ucast (max_banks cfg) then (CANFILTER_ERROR_FULL, s)
      else if id1 > max_ext_id \<or> id2 > max_ext_id then (CANFILTER_ERROR_PARAM, s)
      else (CANFILTER_SUCCESS,
            write_bank s (push_bit 3 id1 OR push_bit 2 1) (push_bit 3 id2 OR push_bit 2 1)
              True True))"

definition bxcan_emit_ext_mask ::
  "bxcan_cfg \<Rightarrow> bxcan \<Rightarrow> u32 \<Rightarrow> u32 \<Rightarrow> canfilter_error_t \<times> bxcan" where
  "bxcan_emit_ext_mask cfg s id1 mask1 =
     (if bank s \<ge> ucast (max_banks cfg) then (CANFILTER_ERROR_FULL, s)
      else if id1 > max_ext_id \<or> mask1 > max_ext_id then (CANFILTER_ERROR_PARAM, s)
      else (CANFILTER_SUCCESS,
            write_bank s (push_bit 3 id1 OR push_bit 2 1) (push_bit 3 mask1) True False))"

subsection \<open>Accumulators\<close>

definition bxcan_add_std_list :: "bxcan_cfg \<Rightarrow> bxcan \<Rightarrow> u32 \<Rightarrow> canfilter_error_t \<times> bxcan" where
  "bxcan_add_std_list cfg s ident =
     (if std_list_count s > 3 then (CANFILTER_ERROR_PARAM, s)
      else
        let s1 = s\<lparr>std_list := (std_list s)[unat (std_list_count s) := ident],
                   std_list_count := std_list_count s + 1\<rparr>
        in if std_list_count s1 = 1
           then (CANFILTER_SUCCESS, s1\<lparr>std_list := (std_list s1)[1 := ident, 2 := ident, 3 := ident]\<rparr>)
           else if std_list_count s1 = 4
           then (let r = bxcan_emit_std_list cfg s1 (std_list s1 ! 0) (std_list s1 ! 1)
                           (std_list s1 ! 2) (std_list s1 ! 3)
                 in (fst r, (snd r)\<lparr>std_list_count := 0\<rparr>))
           else (CANFILTER_SUCCESS, s1))"

definition bxcan_add_std_mask ::
  "bxcan_cfg \<Rightarrow> bxcan \<Rightarrow> u32 \<Rightarrow> u32 \<Rightarrow> canfilter_error_t \<times> bxcan" where
  "bxcan_add_std_mask cfg s ident msk =
     (if std_mask_count s > 1 then (CANFILTER_ERROR_PARAM, s)
      else
        let s1 = s\<lparr>std_mask := (std_mask s)[unat (std_mask_count s) := (ident, msk)],
                   std_mask_count := std_mask_count s + 1\<rparr>
        in if std_mask_count s1 = 1
           then (CANFILTER_SUCCESS, s1\<lparr>std_mask := (std_mask s1)[1 := (ident, msk)]\<rparr>)
           else if std_mask_count s1 = 2
           then (let r = bxcan_emit_std_mask cfg s1 (fst (std_mask s1 ! 0)) (snd (std_mask s1 ! 0))
                           (fst (std_mask s1 ! 1)) (snd (std_mask s1 ! 1))
                 in (fst r, (snd r)\<lparr>std_mask_count := 0\<rparr>))
           else (CANFILTER_SUCCESS, s1))"

definition bxcan_add_ext_list :: "bxcan_cfg \<Rightarrow> bxcan \<Rightarrow> u32 \<Rightarrow> canfilter_error_t \<times> bxcan" where
  "bxcan_add_ext_list cfg s ident =
     (if ext_list_count s > 1 then (CANFILTER_ERROR_PARAM, s)
      else
        let s1 = s\<lparr>ext_list := (ext_list s)[unat (ext_list_count s) := ident],
                   ext_list_count := ext_list_count s + 1\<rparr>
        in if ext_list_count s1 = 1
           then (CANFILTER_SUCCESS, s1\<lparr>ext_list := (ext_list s1)[1 := ident]\<rparr>)
           else if ext_list_count s1 = 2
           then (let r = bxcan_emit_ext_list cfg s1 (ext_list s1 ! 0) (ext_list s1 ! 1)
                 in (fst r, (snd r)\<lparr>ext_list_count := 0\<rparr>))
           else (CANFILTER_SUCCESS, s1))"

definition bxcan_add_ext_mask ::
  "bxcan_cfg \<Rightarrow> bxcan \<Rightarrow> u32 \<Rightarrow> u32 \<Rightarrow> canfilter_error_t \<times> bxcan" where
  "bxcan_add_ext_mask cfg s ident msk = bxcan_emit_ext_mask cfg s ident msk"


subsection \<open>CIDR aggregation\<close>

text \<open>
  \<^verbatim>\<open>std_largest_prefix\<close> and \<^verbatim>\<open>ext_largest_prefix\<close> are the same text but for the width of
  the identifier, 11 or 29, which is the parameter \<open>W\<close> here. Each is two loops over the
  \<^verbatim>\<open>int prefix\<close>: the first lowers it while the bit \<^verbatim>\<open>1U << (W - prefix)\<close> of \<^verbatim>\<open>begin\<close> is
  clear, the second raises it again while the block of \<^verbatim>\<open>1U << (W - prefix)\<close> identifiers
  starting at \<^verbatim>\<open>begin\<close> reaches beyond \<^verbatim>\<open>end\<close>. The arithmetic is that of \<^verbatim>\<open>uint32_t\<close>.
\<close>

function largest_prefix_loop1 :: "int \<Rightarrow> u32 \<Rightarrow> int \<Rightarrow> int" where
  "largest_prefix_loop1 W begin prefix =
     (if prefix > 0 then
        (if begin AND push_bit (nat (W - prefix)) 1 \<noteq> 0 then prefix
         else largest_prefix_loop1 W begin (prefix - 1))
      else prefix)"
  by pat_completeness auto
termination
  by (relation "measure (\<lambda>(W, b, p). nat p)") auto

declare largest_prefix_loop1.simps [simp del]

function largest_prefix_loop2 :: "int \<Rightarrow> u32 \<Rightarrow> u32 \<Rightarrow> int \<Rightarrow> int" where
  "largest_prefix_loop2 W begin end prefix =
     (if prefix < W then
        (if begin + push_bit (nat (W - prefix)) 1 - 1 > end
         then largest_prefix_loop2 W begin end (prefix + 1)
         else prefix)
      else prefix)"
  by pat_completeness auto
termination
  by (relation "measure (\<lambda>(W, b, e, p). nat (W - p))") auto

declare largest_prefix_loop2.simps [simp del]

definition largest_prefix :: "int \<Rightarrow> u32 \<Rightarrow> u32 \<Rightarrow> int" where
  "largest_prefix W begin end =
     largest_prefix_loop2 W begin end (largest_prefix_loop1 W begin W)"

definition std_largest_prefix :: "u32 \<Rightarrow> u32 \<Rightarrow> int" where
  "std_largest_prefix begin end = largest_prefix 11 begin end"

definition ext_largest_prefix :: "u32 \<Rightarrow> u32 \<Rightarrow> int" where
  "ext_largest_prefix begin end = largest_prefix 29 begin end"

subsection \<open>Lifecycle\<close>

definition bxcan_begin :: "bxcan_cfg \<Rightarrow> bxcan \<Rightarrow> canfilter_error_t \<times> bxcan" where
  "bxcan_begin cfg s =
     (CANFILTER_SUCCESS,
      s\<lparr>std_list_count := 0, std_mask_count := 0, ext_list_count := 0, bank := 0,
        hw_config := (bxcan_hw_t cfg)\<lparr>dev := dev_val cfg\<rparr>\<rparr>)"

definition bxcan_end :: "bxcan_cfg \<Rightarrow> bxcan \<Rightarrow> canfilter_error_t \<times> bxcan" where
  "bxcan_end cfg s =
     (let r1 = (if std_list_count s \<noteq> 0
                then bxcan_emit_std_list cfg s (std_list s ! 0) (std_list s ! 1)
                       (std_list s ! 2) (std_list s ! 3)
                else (CANFILTER_SUCCESS, s));
          r2 = (if std_mask_count (snd r1) \<noteq> 0 \<and> fst r1 = CANFILTER_SUCCESS
                then bxcan_emit_std_mask cfg (snd r1)
                       (fst (std_mask (snd r1) ! 0)) (snd (std_mask (snd r1) ! 0))
                       (fst (std_mask (snd r1) ! 1)) (snd (std_mask (snd r1) ! 1))
                else r1)
      in if ext_list_count (snd r2) \<noteq> 0 \<and> fst r2 = CANFILTER_SUCCESS
         then bxcan_emit_ext_list cfg (snd r2) (ext_list (snd r2) ! 0) (ext_list (snd r2) ! 1)
         else r2)"


subsection \<open>Ranges\<close>

text \<open>
  The \<^verbatim>\<open>while (begin <= end)\<close> loop of \<^verbatim>\<open>add_std_range\<close>. It returns as soon as an
  accumulator reports an error. It ends on every input: each round that does not return
  either fills one more accumulator slot or takes one more bank, and both are bounded.
\<close>

function bxcan_std_range_loop ::
  "bxcan_cfg \<Rightarrow> bxcan \<Rightarrow> u32 \<Rightarrow> u32 \<Rightarrow> canfilter_error_t \<times> bxcan" where
  "bxcan_std_range_loop cfg s begin end =
     (if begin \<le> end then
        (let prefix = std_largest_prefix begin end;
             msk = push_bit (nat (11 - prefix)) (NOT 0) AND max_std_id;
             ident = begin;
             r = (if msk = max_std_id then bxcan_add_std_list cfg s ident
                  else bxcan_add_std_mask cfg s ident msk)
         in if fst r \<noteq> CANFILTER_SUCCESS then r
            else bxcan_std_range_loop cfg (snd r) (begin + push_bit (nat (11 - prefix)) 1) end)
      else (CANFILTER_SUCCESS, s))"
  by pat_completeness auto
termination
proof -
  let ?mu = "\<lambda>cfg s. 4 * (unat (max_banks cfg) - unat (bank s))
                + (3 - unat (std_list_count s)) + (1 - unat (std_mask_count s))"
  have u8: "\<And>m::u8. unat m < 256"
    using unsigned_less[where 'a=nat and 'b=8] by simp
  have uc: "\<And>m::u8. unat (ucast m :: u32) = unat m"
    by (simp add: unsigned_ucast_eq take_bit_nat_eq_self u8[THEN less_trans])
  have bank_lt: "\<And>(m::u8) (x::u32). (\<not> ucast m \<le> x) = (unat x < unat m)"
    by (simp add: word_le_nat_alt uc not_le)
  have bank_suc: "\<And>(m::u8) (x::u32). unat x < unat m \<Longrightarrow> unat (x + 1) = Suc (unat x)"
  proof -
    fix m :: u8 and x :: u32
    assume "unat x < unat m"
    with u8[of m] have "Suc (unat x) < 4294967296" by simp
    then show "unat (x + 1) = Suc (unat x)" by (simp add: unat_word_ariths)
  qed
  have cnt3: "\<And>c::u32. \<not> 3 < c \<Longrightarrow> unat (c + 1) = Suc (unat c) \<and> unat c \<le> 3"
    by (simp add: word_less_nat_alt not_less unat_word_ariths)
  have cnt1: "\<And>c::u32. \<not> 1 < c \<Longrightarrow> unat (c + 1) = Suc (unat c) \<and> unat c \<le> 1"
    by (simp add: word_less_nat_alt not_less unat_word_ariths)
  have weq: "\<And>c::u32. (c = 0) = (unat c = 0)" "\<And>c::u32. (c = 1) = (unat c = 1)"
    "\<And>c::u32. (c = 3) = (unat c = 3)"
    by (simp_all add: word_unat_eq_iff)
  have A: "\<And>cfg s i. fst (bxcan_add_std_list cfg s i) = CANFILTER_SUCCESS \<Longrightarrow>
             ?mu cfg (snd (bxcan_add_std_list cfg s i)) < ?mu cfg s"
    apply (simp add: bxcan_add_std_list_def Let_def bxcan_emit_std_list_def write_bank_def
        split: if_splits)
       apply (auto simp: bank_lt bank_suc weq dest!: cnt3)
    done
  have B: "\<And>cfg s i m. fst (bxcan_add_std_mask cfg s i m) = CANFILTER_SUCCESS \<Longrightarrow>
             ?mu cfg (snd (bxcan_add_std_mask cfg s i m)) < ?mu cfg s"
    apply (simp add: bxcan_add_std_mask_def Let_def bxcan_emit_std_mask_def write_bank_def
        split: if_splits)
       apply (auto simp: bank_lt bank_suc weq dest!: cnt1)
    done
  show ?thesis
    apply (relation "measure (\<lambda>(cfg, s, b, e). ?mu cfg s)")
     apply simp
    using A B apply (simp split: if_splits)
    done
qed

declare bxcan_std_range_loop.simps [simp del]

definition bxcan_add_std_range ::
  "bxcan_cfg \<Rightarrow> bxcan \<Rightarrow> u32 \<Rightarrow> u32 \<Rightarrow> canfilter_error_t \<times> bxcan" where
  "bxcan_add_std_range cfg s begin end =
     (if begin > max_std_id \<or> end > max_std_id then (CANFILTER_ERROR_PARAM, s)
      else if begin > end then bxcan_std_range_loop cfg s end begin
      else bxcan_std_range_loop cfg s begin end)"

function bxcan_ext_range_loop ::
  "bxcan_cfg \<Rightarrow> bxcan \<Rightarrow> u32 \<Rightarrow> u32 \<Rightarrow> canfilter_error_t \<times> bxcan" where
  "bxcan_ext_range_loop cfg s begin end =
     (if begin \<le> end then
        (let prefix = ext_largest_prefix begin end;
             msk = push_bit (nat (29 - prefix)) (NOT 0) AND max_ext_id;
             ident = begin;
             r = (if msk = max_ext_id then bxcan_add_ext_list cfg s ident
                  else bxcan_add_ext_mask cfg s ident msk)
         in if fst r \<noteq> CANFILTER_SUCCESS then r
            else bxcan_ext_range_loop cfg (snd r) (begin + push_bit (nat (29 - prefix)) 1) end)
      else (CANFILTER_SUCCESS, s))"
  by pat_completeness auto
termination
proof -
  let ?mu = "\<lambda>cfg s. 2 * (unat (max_banks cfg) - unat (bank s)) + (1 - unat (ext_list_count s))"
  have u8: "\<And>m::u8. unat m < 256"
    using unsigned_less[where 'a=nat and 'b=8] by simp
  have uc: "\<And>m::u8. unat (ucast m :: u32) = unat m"
    by (simp add: unsigned_ucast_eq take_bit_nat_eq_self u8[THEN less_trans])
  have bank_lt: "\<And>(m::u8) (x::u32). (\<not> ucast m \<le> x) = (unat x < unat m)"
    by (simp add: word_le_nat_alt uc not_le)
  have bank_suc: "\<And>(m::u8) (x::u32). unat x < unat m \<Longrightarrow> unat (x + 1) = Suc (unat x)"
  proof -
    fix m :: u8 and x :: u32
    assume "unat x < unat m"
    with u8[of m] have "Suc (unat x) < 4294967296" by simp
    then show "unat (x + 1) = Suc (unat x)" by (simp add: unat_word_ariths)
  qed
  have cnt1: "\<And>c::u32. \<not> 1 < c \<Longrightarrow> unat (c + 1) = Suc (unat c) \<and> unat c \<le> 1"
    by (simp add: word_less_nat_alt not_less unat_word_ariths)
  have weq: "\<And>c::u32. (c = 0) = (unat c = 0)" "\<And>c::u32. (c = 1) = (unat c = 1)"
    by (simp_all add: word_unat_eq_iff)
  have A: "\<And>cfg s i. fst (bxcan_add_ext_list cfg s i) = CANFILTER_SUCCESS \<Longrightarrow>
             ?mu cfg (snd (bxcan_add_ext_list cfg s i)) < ?mu cfg s"
    apply (simp add: bxcan_add_ext_list_def Let_def bxcan_emit_ext_list_def write_bank_def
        split: if_splits)
       apply (auto simp: bank_lt bank_suc weq dest!: cnt1)
    done
  have B: "\<And>cfg s i m. fst (bxcan_add_ext_mask cfg s i m) = CANFILTER_SUCCESS \<Longrightarrow>
             ?mu cfg (snd (bxcan_add_ext_mask cfg s i m)) < ?mu cfg s"
    apply (simp add: bxcan_add_ext_mask_def Let_def bxcan_emit_ext_mask_def write_bank_def
        split: if_splits)
    apply (auto simp: bank_lt bank_suc)
    done
  show ?thesis
    apply (relation "measure (\<lambda>(cfg, s, b, e). ?mu cfg s)")
     apply simp
    using A B apply (simp split: if_splits)
    done
qed

declare bxcan_ext_range_loop.simps [simp del]

definition bxcan_add_ext_range ::
  "bxcan_cfg \<Rightarrow> bxcan \<Rightarrow> u32 \<Rightarrow> u32 \<Rightarrow> canfilter_error_t \<times> bxcan" where
  "bxcan_add_ext_range cfg s begin end =
     (if begin > max_ext_id \<or> end > max_ext_id then (CANFILTER_ERROR_PARAM, s)
      else if begin > end then bxcan_ext_range_loop cfg s end begin
      else bxcan_ext_range_loop cfg s begin end)"

definition bxcan_add_std_id :: "bxcan_cfg \<Rightarrow> bxcan \<Rightarrow> u32 \<Rightarrow> canfilter_error_t \<times> bxcan" where
  "bxcan_add_std_id cfg s ident = bxcan_add_std_range cfg s ident ident"

definition bxcan_add_ext_id :: "bxcan_cfg \<Rightarrow> bxcan \<Rightarrow> u32 \<Rightarrow> canfilter_error_t \<times> bxcan" where
  "bxcan_add_ext_id cfg s ident = bxcan_add_ext_range cfg s ident ident"

subsection \<open>The blocks of a range\<close>

text \<open>
  The \<open>(id, mask)\<close> pairs that the loop of \<^verbatim>\<open>add_std_range\<close> (\<open>W = 11\<close>) or of
  \<^verbatim>\<open>add_ext_range\<close> (\<open>W = 29\<close>) computes, in order, when no accumulator stops it. The loop
  is entered only after both ends were checked against the largest identifier
  \<open>mask W = 2 ^ W - 1\<close>, which is the second condition here.
\<close>

function range_blocks :: "int \<Rightarrow> u32 \<Rightarrow> u32 \<Rightarrow> (u32 \<times> u32) list" where
  "range_blocks W begin end =
     (if begin \<le> end \<and> end \<le> mask (nat W) \<and> 0 \<le> W \<and> W \<le> 30 then
        (let prefix = largest_prefix W begin end;
             msk = push_bit (nat (W - prefix)) (NOT 0) AND mask (nat W)
         in (begin, msk) # range_blocks W (begin + push_bit (nat (W - prefix)) 1) end)
      else [])"
  by pat_completeness auto
termination
proof -
  have l1: "\<And>W b p. 0 \<le> p \<Longrightarrow>
      0 \<le> largest_prefix_loop1 W b p \<and> largest_prefix_loop1 W b p \<le> p"
  proof -
    fix W b p
    show "0 \<le> p \<Longrightarrow> 0 \<le> largest_prefix_loop1 W b p \<and> largest_prefix_loop1 W b p \<le> p"
    proof (induction W b p rule: largest_prefix_loop1.induct)
      case (1 W b p)
      show ?case
        using 1
        by (subst largest_prefix_loop1.simps, subst (2) largest_prefix_loop1.simps) auto
    qed
  qed
  have l2: "\<And>W b e p. p \<le> W \<Longrightarrow> p \<le> largest_prefix_loop2 W b e p"
  proof -
    fix W b e p
    show "p \<le> W \<Longrightarrow> p \<le> largest_prefix_loop2 W b e p"
    proof (induction W b e p rule: largest_prefix_loop2.induct)
      case (1 W b e p)
      show ?case
        using 1 by (subst largest_prefix_loop2.simps) auto
    qed
  qed
  have step: "\<And>W (b::u32) e. b \<le> e \<Longrightarrow> e \<le> mask (nat W) \<Longrightarrow> 0 \<le> W \<Longrightarrow> W \<le> 30 \<Longrightarrow>
      unat e + 1 - unat (b + push_bit (nat (W - largest_prefix W b e)) 1) < unat e + 1 - unat b"
  proof -
    fix W :: int and b e :: u32
    assume be: "b \<le> e" and e: "e \<le> mask (nat W)" and W: "0 \<le> W" "W \<le> 30"
    define k where "k = nat (W - largest_prefix W b e)"
    have "0 \<le> largest_prefix W b e"
      using l1[OF W(1), of W b] l2[of "largest_prefix_loop1 W b W" W b e]
      by (simp add: largest_prefix_def)
    then have k: "k \<le> 30" using W by (simp add: k_def)
    have pw: "\<And>n. n \<le> 30 \<Longrightarrow> unat (2 ^ n :: u32) = 2 ^ n"
    proof -
      fix n :: nat
      assume "n \<le> 30"
      then have lt: "(2::nat) ^ n < 2 ^ 32" by (intro power_strict_increasing) simp_all
      have "unat (2 ^ n :: u32) = unat (of_nat (2 ^ n) :: u32)" by simp
      also have "\<dots> = 2 ^ n mod 2 ^ 32" by (simp only: unat_of_nat) simp
      also have "\<dots> = 2 ^ n" using lt by simp
      finally show "unat (2 ^ n :: u32) = 2 ^ n" .
    qed
    have p30: "\<And>n. n \<le> 30 \<Longrightarrow> (2::nat) ^ n \<le> 2 ^ 30"
      by (intro power_increasing) simp_all
    have "(2 ^ nat W :: u32) \<noteq> 0"
      using pw[of "nat W"] W by (metis nat_le_iff of_nat_numeral power_not_zero unat_0 zero_neq_numeral)
    then have "unat (mask (nat W) :: u32) = 2 ^ nat W - 1"
      using pw[of "nat W"] W by (simp add: mask_eq_decr_exp unat_minus_one)
    moreover have "(2::nat) ^ nat W \<le> 2 ^ 30" using W by (intro p30) simp
    moreover have "unat e \<le> unat (mask (nat W) :: u32)" using e by (simp add: word_le_nat_alt)
    ultimately have "unat e < 2 ^ 30" by simp
    moreover have ub: "unat b \<le> unat e" using be by (simp add: word_le_nat_alt)
    ultimately have "unat (b + 2 ^ k) = unat b + 2 ^ k"
      using p30[OF k] by (simp add: unat_word_ariths pw[OF k])
    then show "unat e + 1 - unat (b + push_bit (nat (W - largest_prefix W b e)) 1)
        < unat e + 1 - unat b"
    proof -
      have "0 < (2::nat) ^ k" by simp
      with \<open>unat (b + 2 ^ k) = unat b + 2 ^ k\<close> ub
      have "unat e + 1 - unat (b + 2 ^ k) < unat e + 1 - unat b" by arith
      then show ?thesis by (simp add: k_def)
    qed
  qed
  show ?thesis
  proof (relation "measure (\<lambda>(W, b, e). unat e + 1 - unat b)", goal_cases)
    case 1
    show ?case by simp
  next
    case (2 W b e x xa)
    then have "b \<le> e" "e \<le> mask (nat W)" "0 \<le> W" "W \<le> 30" by simp_all
    from step[OF this] show ?case unfolding 2(2) by simp
  qed
qed

declare range_blocks.simps [simp del]

text \<open>The binary logarithm of the size of the first block of a range.\<close>

definition block_log :: "int \<Rightarrow> u32 \<Rightarrow> u32 \<Rightarrow> nat" where
  "block_log W begin end = nat (W - largest_prefix W begin end)"

definition std_blocks :: "u32 \<Rightarrow> u32 \<Rightarrow> (u32 \<times> u32) list" where
  "std_blocks begin end = range_blocks 11 begin end"

definition ext_blocks :: "u32 \<Rightarrow> u32 \<Rightarrow> (u32 \<times> u32) list" where
  "ext_blocks begin end = range_blocks 29 begin end"

text \<open>
  What the loop of \<^verbatim>\<open>add_std_range\<close> does with a list of blocks: a block whose mask is
  \<^verbatim>\<open>max_std_id\<close> goes to the list accumulator as a single identifier, every other block
  goes to the mask accumulator, and the first error ends the loop. Likewise for the
  extended identifiers.
\<close>

fun bxcan_feed_std ::
  "bxcan_cfg \<Rightarrow> bxcan \<Rightarrow> (u32 \<times> u32) list \<Rightarrow> canfilter_error_t \<times> bxcan" where
  "bxcan_feed_std cfg s [] = (CANFILTER_SUCCESS, s)"
| "bxcan_feed_std cfg s (c # cs) =
     (if fst (if snd c = max_std_id then bxcan_add_std_list cfg s (fst c)
              else bxcan_add_std_mask cfg s (fst c) (snd c)) \<noteq> CANFILTER_SUCCESS
      then (if snd c = max_std_id then bxcan_add_std_list cfg s (fst c)
            else bxcan_add_std_mask cfg s (fst c) (snd c))
      else bxcan_feed_std cfg
             (snd (if snd c = max_std_id then bxcan_add_std_list cfg s (fst c)
                   else bxcan_add_std_mask cfg s (fst c) (snd c))) cs)"

fun bxcan_feed_ext ::
  "bxcan_cfg \<Rightarrow> bxcan \<Rightarrow> (u32 \<times> u32) list \<Rightarrow> canfilter_error_t \<times> bxcan" where
  "bxcan_feed_ext cfg s [] = (CANFILTER_SUCCESS, s)"
| "bxcan_feed_ext cfg s (c # cs) =
     (if fst (if snd c = max_ext_id then bxcan_add_ext_list cfg s (fst c)
              else bxcan_add_ext_mask cfg s (fst c) (snd c)) \<noteq> CANFILTER_SUCCESS
      then (if snd c = max_ext_id then bxcan_add_ext_list cfg s (fst c)
            else bxcan_add_ext_mask cfg s (fst c) (snd c))
      else bxcan_feed_ext cfg
             (snd (if snd c = max_ext_id then bxcan_add_ext_list cfg s (fst c)
                   else bxcan_add_ext_mask cfg s (fst c) (snd c))) cs)"

text \<open>
  The identifiers a block \<open>(base, mask)\<close> stands for, decoded as \<^verbatim>\<open>debug_print\<close> does:
  from \<open>base\<close> to \<open>(base | ~mask) & mx\<close>, where \<open>mx\<close> is the largest identifier.
\<close>

definition block_ids :: "u32 \<Rightarrow> u32 \<times> u32 \<Rightarrow> u32 set" where
  "block_ids mx c = {fst c .. (fst c OR NOT (snd c)) AND mx}"

fun disjoint_blocks :: "u32 \<Rightarrow> (u32 \<times> u32) list \<Rightarrow> bool" where
  "disjoint_blocks mx [] = True"
| "disjoint_blocks mx (c # cs) =
     ((\<forall>d\<in>set cs. block_ids mx c \<inter> block_ids mx d = {}) \<and> disjoint_blocks mx cs)"

text \<open>
  An address-aligned block of \<open>2 ^ k\<close> identifiers of a \<open>W\<close>-bit space, written as a base
  and a mask: the mask keeps the bits from \<open>k\<close> upwards, and the base has its \<open>k\<close> low bits
  clear.
\<close>

definition cidr_block :: "nat \<Rightarrow> u32 \<times> u32 \<Rightarrow> bool" where
  "cidr_block W c =
     (\<exists>k\<in>{0..W}. snd c = push_bit k (NOT 0) AND mask W \<and> fst c \<le> mask W \<and> fst c AND mask k = 0)"

text \<open>A cover of the range from \<open>lo\<close> to \<open>hi\<close> by disjoint blocks of that kind.\<close>

definition cidr_cover :: "nat \<Rightarrow> u32 \<Rightarrow> u32 \<Rightarrow> (u32 \<times> u32) list \<Rightarrow> bool" where
  "cidr_cover W lo hi cs =
     ((\<forall>c\<in>set cs. cidr_block W c) \<and> disjoint_blocks (mask W) cs \<and>
      (\<Union>c\<in>set cs. block_ids (mask W) c) = {lo..hi})"

subsection \<open>Sequences of calls\<close>

text \<open>
  The calls the builder takes between \<^verbatim>\<open>begin()\<close> and the moment the image is read, and
  the state after a sequence of them. The result code of each call is dropped here; the
  state is what the next call sees.
\<close>

datatype bxcan_call =
    Add_std_id u32
  | Add_ext_id u32
  | Add_std_range u32 u32
  | Add_ext_range u32 u32
  | End

fun bxcan_do :: "bxcan_cfg \<Rightarrow> bxcan \<Rightarrow> bxcan_call \<Rightarrow> canfilter_error_t \<times> bxcan" where
  "bxcan_do cfg s (Add_std_id i) = bxcan_add_std_id cfg s i"
| "bxcan_do cfg s (Add_ext_id i) = bxcan_add_ext_id cfg s i"
| "bxcan_do cfg s (Add_std_range a b) = bxcan_add_std_range cfg s a b"
| "bxcan_do cfg s (Add_ext_range a b) = bxcan_add_ext_range cfg s a b"
| "bxcan_do cfg s End = bxcan_end cfg s"

fun bxcan_run :: "bxcan_cfg \<Rightarrow> bxcan \<Rightarrow> bxcan_call list \<Rightarrow> bxcan" where
  "bxcan_run cfg s [] = s"
| "bxcan_run cfg s (c # cs) = bxcan_run cfg (snd (bxcan_do cfg s c)) cs"

text \<open>
  The invariant of the hardware image: \<^verbatim>\<open>bank\<close> is at most \<^verbatim>\<open>max_banks\<close>, and from index
  \<^verbatim>\<open>bank\<close> on every entry of \<^verbatim>\<open>fr1\<close> and \<^verbatim>\<open>fr2\<close> and every bit of \<^verbatim>\<open>fa1r\<close> is zero.
\<close>

definition bxcan_image_inv :: "bxcan_cfg \<Rightarrow> bxcan \<Rightarrow> bool" where
  "bxcan_image_inv cfg s =
     (bank s \<le> ucast (max_banks cfg) \<and>
      (\<forall>i<unat (max_banks cfg). unat (bank s) \<le> i \<longrightarrow>
          fr1 (hw_config s) ! i = 0 \<and> fr2 (hw_config s) ! i = 0) \<and>
      (\<forall>i<32. unat (bank s) \<le> i \<longrightarrow> \<not> bit (fa1r (hw_config s)) i))"

text \<open>The same with the sizes of the two arrays, which every emission relies on.\<close>

definition bxcan_image_ok :: "bxcan_cfg \<Rightarrow> bxcan \<Rightarrow> bool" where
  "bxcan_image_ok cfg s =
     (bxcan_image_inv cfg s \<and>
      length (fr1 (hw_config s)) = unat (max_banks cfg) \<and>
      length (fr2 (hw_config s)) = unat (max_banks cfg))"

text \<open>The accumulator arrays have the sizes the class declares: 4, 2 and 2.\<close>

definition bxcan_shape :: "bxcan \<Rightarrow> bool" where
  "bxcan_shape s =
     (length (std_list s) = 4 \<and> length (std_mask s) = 2 \<and> length (ext_list s) = 2)"

text \<open>
  The invariant of the accumulators: no count has reached the size of its array, and a
  non-empty accumulator holds identifiers and masks of its space in every slot.
\<close>

definition bxcan_acc_ok :: "bxcan \<Rightarrow> bool" where
  "bxcan_acc_ok s =
     (bxcan_shape s \<and>
      std_list_count s \<le> 3 \<and> std_mask_count s \<le> 1 \<and> ext_list_count s \<le> 1 \<and>
      (std_list_count s \<noteq> 0 \<longrightarrow> (\<forall>x\<in>set (std_list s). x \<le> max_std_id)) \<and>
      (std_mask_count s \<noteq> 0 \<longrightarrow>
         (\<forall>p\<in>set (std_mask s). fst p \<le> max_std_id \<and> snd p \<le> max_std_id)) \<and>
      (ext_list_count s \<noteq> 0 \<longrightarrow> (\<forall>x\<in>set (ext_list s). x \<le> max_ext_id)))"

subsection \<open>Reading the image back (\<^verbatim>\<open>debug_print\<close>)\<close>

text \<open>
  What \<^verbatim>\<open>debug_print\<close> prints for one bank: the two identifiers of a 32-bit list bank, the
  first and last identifier of a 32-bit mask bank, the four identifiers of a 16-bit list
  bank, or the first and last identifier of each of the two filters of a 16-bit mask bank.
\<close>

datatype bank_line =
    Ext_list_line u32 u32
  | Ext_mask_line u32 u32
  | Std_list_line u32 u32 u32 u32
  | Std_mask_line u32 u32 u32 u32

text \<open>
  The body of the loop for one active bank, from its two mode flags \<^verbatim>\<open>is_32bit\<close> and
  \<^verbatim>\<open>is_list\<close> and its two registers.
\<close>

definition print_bank :: "bool \<Rightarrow> bool \<Rightarrow> u32 \<Rightarrow> u32 \<Rightarrow> bank_line" where
  "print_bank is_32bit is_list r1 r2 =
     (if is_32bit then
        (let id1 = drop_bit 3 r1 AND max_ext_id;
             id2 = drop_bit 3 r2 AND max_ext_id
         in if is_list then Ext_list_line id1 id2
            else
              (let begin1 = id1 AND id2;
                   end1 = (begin1 OR NOT id2) AND max_ext_id
               in Ext_mask_line begin1 end1))
      else
        (let id1 = drop_bit 5 r1 AND max_std_id;
             id2 = drop_bit 21 r1 AND max_std_id;
             id3 = drop_bit 5 r2 AND max_std_id;
             id4 = drop_bit 21 r2 AND max_std_id
         in if is_list then Std_list_line id1 id2 id3 id4
            else
              (let begin1 = id1 AND id2;
                   end1 = (begin1 OR NOT id2) AND max_std_id;
                   begin2 = id3 AND id4;
                   end2 = (begin2 OR NOT id4) AND max_std_id
               in Std_mask_line id1 end1 id3 end2)))"

text \<open>The loop at bank \<open>i\<close>; nothing is printed for a bank that is not active.\<close>

definition debug_print_bank :: "bxcan_hw \<Rightarrow> nat \<Rightarrow> bank_line option" where
  "debug_print_bank hw i =
     (if fa1r hw AND push_bit i 1 = 0 then None
      else Some (print_bank (fs1r hw AND push_bit i 1 \<noteq> 0) (fm1r hw AND push_bit i 1 \<noteq> 0)
                   (fr1 hw ! i) (fr2 hw ! i)))"

definition debug_print :: "bxcan_cfg \<Rightarrow> bxcan_hw \<Rightarrow> bank_line list" where
  "debug_print cfg hw = List.map_filter (debug_print_bank hw) [0 ..< unat (max_banks cfg)]"

text \<open>The identifiers a printed line stands for, standard and extended.\<close>

fun line_std_ids :: "bank_line \<Rightarrow> u32 set" where
  "line_std_ids (Std_list_line id1 id2 id3 id4) = {id1, id2, id3, id4}"
| "line_std_ids (Std_mask_line base1 end1 base2 end2) = {base1 .. end1} \<union> {base2 .. end2}"
| "line_std_ids l = {}"

fun line_ext_ids :: "bank_line \<Rightarrow> u32 set" where
  "line_ext_ids (Ext_list_line id1 id2) = {id1, id2}"
| "line_ext_ids (Ext_mask_line begin1 end1) = {begin1 .. end1}"
| "line_ext_ids l = {}"

definition image_std_ids :: "bxcan_cfg \<Rightarrow> bxcan_hw \<Rightarrow> u32 set" where
  "image_std_ids cfg hw = (\<Union>l\<in>set (debug_print cfg hw). line_std_ids l)"

definition image_ext_ids :: "bxcan_cfg \<Rightarrow> bxcan_hw \<Rightarrow> u32 set" where
  "image_ext_ids cfg hw = (\<Union>l\<in>set (debug_print cfg hw). line_ext_ids l)"

subsection \<open>What a builder holds\<close>

text \<open>
  The identifiers waiting in the accumulators: those that \<^verbatim>\<open>end()\<close> hands to the emitters,
  which is every slot of an accumulator whose count is not zero.
\<close>

definition pending_std_ids :: "bxcan \<Rightarrow> u32 set" where
  "pending_std_ids s =
     (if std_list_count s \<noteq> 0 then set (std_list s) else {}) \<union>
     (if std_mask_count s \<noteq> 0 then (\<Union>p\<in>set (std_mask s). block_ids max_std_id p) else {})"

definition pending_ext_ids :: "bxcan \<Rightarrow> u32 set" where
  "pending_ext_ids s = (if ext_list_count s \<noteq> 0 then set (ext_list s) else {})"

text \<open>The identifiers of the banks written so far together with the waiting ones.\<close>

definition bxcan_std_ids :: "bxcan_cfg \<Rightarrow> bxcan \<Rightarrow> u32 set" where
  "bxcan_std_ids cfg s = image_std_ids cfg (hw_config s) \<union> pending_std_ids s"

definition bxcan_ext_ids :: "bxcan_cfg \<Rightarrow> bxcan \<Rightarrow> u32 set" where
  "bxcan_ext_ids cfg s = image_ext_ids cfg (hw_config s) \<union> pending_ext_ids s"

text \<open>
  The padding of the accumulators: the slots from the count on repeat the first slot
  (\<^verbatim>\<open>add_std_list\<close>, \<^verbatim>\<open>add_std_mask\<close> and \<^verbatim>\<open>add_ext_list\<close> fill them when they store the
  first entry).
\<close>

definition bxcan_fill_ok :: "bxcan \<Rightarrow> bool" where
  "bxcan_fill_ok s =
     ((std_list_count s \<noteq> 0 \<longrightarrow>
         (\<forall>j<4. unat (std_list_count s) \<le> j \<longrightarrow> std_list s ! j = std_list s ! 0)) \<and>
      (std_mask_count s \<noteq> 0 \<longrightarrow>
         (\<forall>j<2. unat (std_mask_count s) \<le> j \<longrightarrow> std_mask s ! j = std_mask s ! 0)) \<and>
      (ext_list_count s \<noteq> 0 \<longrightarrow>
         (\<forall>j<2. unat (ext_list_count s) \<le> j \<longrightarrow> ext_list s ! j = ext_list s ! 0)))"

section \<open>Parser (canfilter.cpp)\<close>

subsection \<open>The C library functions the parser calls\<close>

text \<open>
  \<^verbatim>\<open>std::isspace\<close> in the C locale: space, and the control characters \<^verbatim>\<open>\t \n \v \f \r\<close>.
\<close>

definition isspace :: "char \<Rightarrow> bool" where
  "isspace c = (let n = (of_char c :: nat) in n = 32 \<or> (9 \<le> n \<and> n \<le> 13))"

text \<open>
  The value of a character as a digit (\<^verbatim>\<open>0-9\<close>, then \<^verbatim>\<open>a-z\<close> or \<^verbatim>\<open>A-Z\<close> for 10 to 35);
  36 for every other character, which is a digit in no base.
\<close>

definition digit_val :: "char \<Rightarrow> nat" where
  "digit_val c =
     (let n = (of_char c :: nat) in
      if 48 \<le> n \<and> n \<le> 57 then n - 48
      else if 97 \<le> n \<and> n \<le> 122 then n - 87
      else if 65 \<le> n \<and> n \<le> 90 then n - 55
      else 36)"

definition ULONG_MAX :: nat where
  "ULONG_MAX = 2 ^ 64 - 1"

text \<open>
  What one call \<^verbatim>\<open>strtoul(start, &end, 0)\<close> yields: the returned \<^verbatim>\<open>unsigned long\<close>, the
  distance \<^verbatim>\<open>end - start\<close>, and whether \<^verbatim>\<open>errno\<close> was set to \<^verbatim>\<open>ERANGE\<close>.
\<close>

record strtoul_result =
  ul_value :: nat
  ul_len :: nat
  ul_erange :: bool

text \<open>
  \<^verbatim>\<open>strtoul\<close> with base 0, after ISO C 7.22.1.4, for a 64-bit \<^verbatim>\<open>unsigned long\<close>: leading
  white space, an optional sign, then a hexadecimal number after \<^verbatim>\<open>0x\<close> or \<^verbatim>\<open>0X\<close>, an octal
  number after \<^verbatim>\<open>0\<close>, or a decimal number. With no digits nothing is converted and
  \<^verbatim>\<open>end == start\<close>. A value beyond \<^verbatim>\<open>ULONG_MAX\<close> gives \<^verbatim>\<open>ULONG_MAX\<close> and \<^verbatim>\<open>ERANGE\<close>; a
  minus sign negates the value in unsigned arithmetic. The argument is the text from
  \<^verbatim>\<open>start\<close> to the end of the string.
\<close>

text \<open>The sign: whether it is a minus, and how many characters it takes.\<close>

fun strtoul_sign :: "string \<Rightarrow> bool \<times> nat" where
  "strtoul_sign [] = (False, 0)"
| "strtoul_sign (c # cs) =
     (if c = CHR ''-'' then (True, 1) else if c = CHR ''+'' then (False, 1) else (False, 0))"

text \<open>
  The base and the length of the prefix to skip. \<^verbatim>\<open>0x\<close> counts as a prefix only when a
  hexadecimal digit follows it; otherwise the \<^verbatim>\<open>0\<close> is an octal number by itself.
\<close>

fun strtoul_base :: "string \<Rightarrow> nat \<times> nat" where
  "strtoul_base (c0 # cx # ch # cs) =
     (if c0 = CHR ''0'' \<and> (cx = CHR ''x'' \<or> cx = CHR ''X'') \<and> digit_val ch < 16 then (16, 2)
      else if c0 = CHR ''0'' then (8, 0) else (10, 0))"
| "strtoul_base (c0 # cs) = (if c0 = CHR ''0'' then (8, 0) else (10, 0))"
| "strtoul_base [] = (10, 0)"

text \<open>The digits: the value accumulated so far and the number of digits read.\<close>

fun strtoul_digits :: "nat \<Rightarrow> string \<Rightarrow> nat \<Rightarrow> nat \<Rightarrow> nat \<times> nat" where
  "strtoul_digits base [] v n = (v, n)"
| "strtoul_digits base (c # cs) v n =
     (if digit_val c < base then strtoul_digits base cs (v * base + digit_val c) (n + 1)
      else (v, n))"

definition strtoul_finish :: "bool \<Rightarrow> nat \<Rightarrow> nat \<times> nat \<Rightarrow> strtoul_result" where
  "strtoul_finish neg n_before vn =
     (if snd vn = 0 then \<lparr>ul_value = 0, ul_len = 0, ul_erange = False\<rparr>
      else if fst vn > ULONG_MAX
      then \<lparr>ul_value = ULONG_MAX, ul_len = n_before + snd vn, ul_erange = True\<rparr>
      else \<lparr>ul_value = (if neg then (2 ^ 64 - fst vn) mod 2 ^ 64 else fst vn),
            ul_len = n_before + snd vn, ul_erange = False\<rparr>)"

definition strtoul_unsigned :: "bool \<Rightarrow> nat \<Rightarrow> string \<Rightarrow> nat \<times> nat \<Rightarrow> strtoul_result" where
  "strtoul_unsigned neg n_before r2 bp =
     strtoul_finish neg (n_before + snd bp) (strtoul_digits (fst bp) (drop (snd bp) r2) 0 0)"

definition strtoul_signed :: "nat \<Rightarrow> string \<Rightarrow> bool \<times> nat \<Rightarrow> strtoul_result" where
  "strtoul_signed n_ws r1 sg =
     strtoul_unsigned (fst sg) (n_ws + snd sg) (drop (snd sg) r1) (strtoul_base (drop (snd sg) r1))"

definition strtoul :: "string \<Rightarrow> strtoul_result" where
  "strtoul str =
     strtoul_signed (length (takeWhile isspace str)) (dropWhile isspace str)
       (strtoul_sign (dropWhile isspace str))"

subsection \<open>The builder interface\<close>

text \<open>
  \<^verbatim>\<open>parse\<close> is a member of the abstract base class and reaches the back-end through the four
  virtual \<^verbatim>\<open>add\<close> operations only; \<open>'s\<close> is the state of the back-end object.
\<close>

record 's canfilter_ops =
  add_std_id :: "'s \<Rightarrow> u32 \<Rightarrow> canfilter_error_t \<times> 's"
  add_ext_id :: "'s \<Rightarrow> u32 \<Rightarrow> canfilter_error_t \<times> 's"
  add_std_range :: "'s \<Rightarrow> u32 \<Rightarrow> u32 \<Rightarrow> canfilter_error_t \<times> 's"
  add_ext_range :: "'s \<Rightarrow> u32 \<Rightarrow> u32 \<Rightarrow> canfilter_error_t \<times> 's"

definition bxcan_ops :: "bxcan_cfg \<Rightarrow> bxcan canfilter_ops" where
  "bxcan_ops cfg =
     \<lparr>add_std_id = bxcan_add_std_id cfg, add_ext_id = bxcan_add_ext_id cfg,
      add_std_range = bxcan_add_std_range cfg, add_ext_range = bxcan_add_ext_range cfg\<rparr>"

definition fdcan_ops :: "fdcan_cfg \<Rightarrow> fdcan canfilter_ops" where
  "fdcan_ops cfg =
     \<lparr>add_std_id = fdcan_add_std_id cfg, add_ext_id = fdcan_add_ext_id cfg,
      add_std_range = fdcan_add_std_range cfg, add_ext_range = fdcan_add_ext_range cfg\<rparr>"

text \<open>
  A builder that only records what it is asked to add, with a result code chosen in advance:
  its state is the list of directives dispatched so far.
\<close>

datatype directive =
    StdId u32
  | ExtId u32
  | StdRange u32 u32
  | ExtRange u32 u32

definition recording_ops :: "canfilter_error_t \<Rightarrow> directive list canfilter_ops" where
  "recording_ops err =
     \<lparr>add_std_id = (\<lambda>log i. (err, log @ [StdId i])),
      add_ext_id = (\<lambda>log i. (err, log @ [ExtId i])),
      add_std_range = (\<lambda>log a b. (err, log @ [StdRange a b])),
      add_ext_range = (\<lambda>log a b. (err, log @ [ExtRange a b]))\<rparr>"

subsection \<open>\<^verbatim>\<open>canfilter::parse\<close>\<close>

function skip_space :: "string \<Rightarrow> nat \<Rightarrow> nat" where
  "skip_space input pos =
     (if pos < length input \<and> isspace (input ! pos) then skip_space input (pos + 1) else pos)"
  by pat_completeness auto
termination
  by (relation "measure (\<lambda>(input, pos). length input - pos)") auto

declare skip_space.simps [simp del]

function skip_space_comma :: "string \<Rightarrow> nat \<Rightarrow> nat" where
  "skip_space_comma input pos =
     (if pos < length input \<and> (isspace (input ! pos) \<or> input ! pos = CHR '','')
      then skip_space_comma input (pos + 1) else pos)"
  by pat_completeness auto
termination
  by (relation "measure (\<lambda>(input, pos). length input - pos)") auto

declare skip_space_comma.simps [simp del]

text \<open>
  The \<^verbatim>\<open>while (pos < len)\<close> loop. The result is the boolean \<^verbatim>\<open>parse\<close> returns and the
  state of the builder at that moment. The result codes of the four \<^verbatim>\<open>add\<close> calls are
  dropped, as in the source. \<^verbatim>\<open>uint32_t id1 = strtoul(...)\<close> keeps the low 32 bits.
\<close>

function parse_loop :: "'s canfilter_ops \<Rightarrow> string \<Rightarrow> nat \<Rightarrow> 's \<Rightarrow> bool \<times> 's" where
  "parse_loop ops input pos s =
     (if pos < length input then
        (let pos1 = skip_space input pos in
         if pos1 \<ge> length input then (True, s)
         else
           (let r1 = strtoul (drop pos1 input);
                id1 = (of_nat (ul_value r1) :: u32)
            in if ul_len r1 = 0 \<or> ul_erange r1 then (False, s)
               else
                 (let pos2 = skip_space input (pos1 + ul_len r1) in
                  if pos2 < length input \<and> input ! pos2 = CHR ''-'' then
                    (let pos3 = skip_space input (pos2 + 1);
                         r2 = strtoul (drop pos3 input);
                         id2 = (of_nat (ul_value r2) :: u32)
                     in if ul_len r2 = 0 \<or> ul_erange r2 then (False, s)
                        else if id1 \<le> max_std_id \<and> id2 \<le> max_std_id then
                          parse_loop ops input (skip_space_comma input (pos3 + ul_len r2))
                            (snd (add_std_range ops s id1 id2))
                        else if id1 \<le> max_ext_id \<and> id2 \<le> max_ext_id then
                          parse_loop ops input (skip_space_comma input (pos3 + ul_len r2))
                            (snd (add_ext_range ops s id1 id2))
                        else (False, s))
                  else if id1 \<le> max_std_id then
                    parse_loop ops input (skip_space_comma input pos2) (snd (add_std_id ops s id1))
                  else if id1 \<le> max_ext_id then
                    parse_loop ops input (skip_space_comma input pos2) (snd (add_ext_id ops s id1))
                  else (False, s))))
      else (True, s))"
  by pat_completeness auto
termination
proof -
  have sp: "\<And>input pos. pos \<le> skip_space input pos"
  proof -
    fix input pos
    show "pos \<le> skip_space input pos"
    proof (induction input pos rule: skip_space.induct)
      case (1 input pos)
      show ?case
      proof (cases "pos < length input \<and> isspace (input ! pos)")
        case True
        have "skip_space input pos = skip_space input (pos + 1)"
          by (subst skip_space.simps) (simp only: True simp_thms if_True)
        with 1[OF True] show ?thesis by simp
      next
        case False
        have "skip_space input pos = pos"
          by (subst skip_space.simps) (simp only: False simp_thms if_False)
        then show ?thesis by simp
      qed
    qed
  qed
  have sc: "\<And>input pos. pos \<le> skip_space_comma input pos"
  proof -
    fix input pos
    show "pos \<le> skip_space_comma input pos"
    proof (induction input pos rule: skip_space_comma.induct)
      case (1 input pos)
      show ?case
      proof (cases "pos < length input \<and> (isspace (input ! pos) \<or> input ! pos = CHR '','')")
        case True
        have "skip_space_comma input pos = skip_space_comma input (pos + 1)"
          by (subst skip_space_comma.simps) (simp only: True simp_thms if_True)
        with 1[OF True] show ?thesis by simp
      next
        case False
        have "skip_space_comma input pos = pos"
          by (subst skip_space_comma.simps) (simp only: False simp_thms if_False)
        then show ?thesis by simp
      qed
    qed
  qed
  have single: "\<And>input pos n. pos < length input \<Longrightarrow> n \<noteq> 0 \<Longrightarrow>
      length input - skip_space_comma input (skip_space input (skip_space input pos + n))
        < length input - pos"
  proof -
    fix input :: string and pos n :: nat
    assume a: "pos < length input" "n \<noteq> 0"
    have "pos \<le> skip_space input pos" by (rule sp)
    moreover have "skip_space input pos + n \<le> skip_space input (skip_space input pos + n)"
      by (rule sp)
    moreover have "skip_space input (skip_space input pos + n)
        \<le> skip_space_comma input (skip_space input (skip_space input pos + n))" by (rule sc)
    ultimately show "length input - skip_space_comma input (skip_space input (skip_space input pos + n))
        < length input - pos" using a by arith
  qed
  have range: "\<And>input pos n m. pos < length input \<Longrightarrow> n \<noteq> 0 \<Longrightarrow>
      length input - skip_space_comma input
          (skip_space input (skip_space input (skip_space input pos + n) + 1) + m)
        < length input - pos"
  proof -
    fix input :: string and pos n m :: nat
    assume a: "pos < length input" "n \<noteq> 0"
    have "pos \<le> skip_space input pos" by (rule sp)
    moreover have "skip_space input pos + n \<le> skip_space input (skip_space input pos + n)"
      by (rule sp)
    moreover have "skip_space input (skip_space input pos + n) + 1
        \<le> skip_space input (skip_space input (skip_space input pos + n) + 1)" by (rule sp)
    moreover have "skip_space input (skip_space input (skip_space input pos + n) + 1) + m
        \<le> skip_space_comma input
             (skip_space input (skip_space input (skip_space input pos + n) + 1) + m)" by (rule sc)
    ultimately show "length input - skip_space_comma input
          (skip_space input (skip_space input (skip_space input pos + n) + 1) + m)
        < length input - pos" using a by arith
  qed
  show ?thesis
  proof (relation "measure (\<lambda>(ops, input, pos, s). length input - pos)", goal_cases)
    case 1
    show ?case by (rule wf_measure)
  next
    case (2 ops input pos s x xa xb xc xd xe xf)
    from 2(6) have "ul_len xa \<noteq> 0" by simp
    then have "length input - skip_space_comma input
          (skip_space input (skip_space input (skip_space input pos + ul_len xa) + 1) + ul_len xe)
        < length input - pos" using 2(1) by (rule range[rotated])
    then show ?case
      unfolding 2(9) 2(7) 2(2) in_measure prod.case .
  next
    case (3 ops input pos s x xa xb xc xd xe xf)
    from 3(6) have "ul_len xa \<noteq> 0" by simp
    then have "length input - skip_space_comma input
          (skip_space input (skip_space input (skip_space input pos + ul_len xa) + 1) + ul_len xe)
        < length input - pos" using 3(1) by (rule range[rotated])
    then show ?case
      unfolding 3(9) 3(7) 3(2) in_measure prod.case .
  next
    case (4 ops input pos s x xa xb xc)
    from 4(6) have "ul_len xa \<noteq> 0" by simp
    then have "length input - skip_space_comma input
          (skip_space input (skip_space input pos + ul_len xa)) < length input - pos"
      using 4(1) by (rule single[rotated])
    then show ?case
      unfolding 4(7) 4(2) in_measure prod.case .
  next
    case (5 ops input pos s x xa xb xc)
    from 5(6) have "ul_len xa \<noteq> 0" by simp
    then have "length input - skip_space_comma input
          (skip_space input (skip_space input pos + ul_len xa)) < length input - pos"
      using 5(1) by (rule single[rotated])
    then show ?case
      unfolding 5(7) 5(2) in_measure prod.case .
  qed
qed

declare parse_loop.simps [simp del]

definition parse :: "'s canfilter_ops \<Rightarrow> string \<Rightarrow> 's \<Rightarrow> bool \<times> 's" where
  "parse ops input s = (if input = [] then (True, s) else parse_loop ops input 0 s)"

section \<open>Filter-definition texts\<close>

text \<open>
  Texts written after the grammar of the specification (section 4.1), with what the code
  asks beyond it: commas only after a directive, and something between two directives.
  A number is a C integer literal: decimal (no leading \<^verbatim>\<open>0\<close>), octal (a \<^verbatim>\<open>0\<close>, then octal
  digits) or hexadecimal (\<^verbatim>\<open>0x\<close> or \<^verbatim>\<open>0X\<close>, then at least one hexadecimal digit).
\<close>

datatype number =
    Decimal string
  | Octal string
  | Hexadecimal char string

definition digits_value :: "nat \<Rightarrow> string \<Rightarrow> nat" where
  "digits_value base ds = foldl (\<lambda>v c. v * base + digit_val c) 0 ds"

fun number_text :: "number \<Rightarrow> string" where
  "number_text (Decimal ds) = ds"
| "number_text (Octal ds) = CHR ''0'' # ds"
| "number_text (Hexadecimal x ds) = CHR ''0'' # x # ds"

fun number_value :: "number \<Rightarrow> nat" where
  "number_value (Decimal ds) = digits_value 10 ds"
| "number_value (Octal ds) = digits_value 8 ds"
| "number_value (Hexadecimal x ds) = digits_value 16 ds"

fun number_ok :: "number \<Rightarrow> bool" where
  "number_ok (Decimal ds) =
     (ds \<noteq> [] \<and> list_all (\<lambda>c. digit_val c < 10) ds \<and> hd ds \<noteq> CHR ''0'')"
| "number_ok (Octal ds) = list_all (\<lambda>c. digit_val c < 8) ds"
| "number_ok (Hexadecimal x ds) =
     ((x = CHR ''x'' \<or> x = CHR ''X'') \<and> ds \<noteq> [] \<and> list_all (\<lambda>c. digit_val c < 16) ds)"

text \<open>
  A token is a number, or two numbers around \<^verbatim>\<open>-\<close> with white space before and after it.
  Its numbers classify as standard or extended when none is beyond \<open>0x1FFFFFFF\<close>.
\<close>

datatype token =
    Single number
  | Span number string string number

fun token_text :: "token \<Rightarrow> string" where
  "token_text (Single n) = number_text n"
| "token_text (Span n1 w1 w2 n2) = number_text n1 @ w1 @ CHR ''-'' # w2 @ number_text n2"

fun token_ok :: "token \<Rightarrow> bool" where
  "token_ok (Single n) = (number_ok n \<and> number_value n \<le> 0x1FFFFFFF)"
| "token_ok (Span n1 w1 w2 n2) =
     (number_ok n1 \<and> number_value n1 \<le> 0x1FFFFFFF \<and> list_all isspace w1 \<and>
      list_all isspace w2 \<and> number_ok n2 \<and> number_value n2 \<le> 0x1FFFFFFF)"

text \<open>The directive of a token, by the magnitude of its numbers.\<close>

fun token_directive :: "token \<Rightarrow> directive" where
  "token_directive (Single n) =
     (if number_value n \<le> 0x7FF then StdId (of_nat (number_value n))
      else ExtId (of_nat (number_value n)))"
| "token_directive (Span n1 w1 w2 n2) =
     (if number_value n1 \<le> 0x7FF \<and> number_value n2 \<le> 0x7FF
      then StdRange (of_nat (number_value n1)) (of_nat (number_value n2))
      else ExtRange (of_nat (number_value n1)) (of_nat (number_value n2)))"

text \<open>
  A text is white space, then tokens, each with the separator that follows it: white space
  and commas, at least one character of them unless the token is the last.
\<close>

definition is_separator :: "char \<Rightarrow> bool" where
  "is_separator c = (isspace c \<or> c = CHR '','')"

fun tokens_text :: "(token \<times> string) list \<Rightarrow> string" where
  "tokens_text [] = []"
| "tokens_text ((t, sep) # ts) = token_text t @ sep @ tokens_text ts"

fun tokens_ok :: "(token \<times> string) list \<Rightarrow> bool" where
  "tokens_ok [] = True"
| "tokens_ok ((t, sep) # ts) =
     (token_ok t \<and> list_all is_separator sep \<and> (sep = [] \<longrightarrow> ts = []) \<and> tokens_ok ts)"

definition filter_text :: "string \<Rightarrow> (token \<times> string) list \<Rightarrow> string" where
  "filter_text lead ts = lead @ tokens_text ts"

definition filter_text_ok :: "string \<Rightarrow> (token \<times> string) list \<Rightarrow> bool" where
  "filter_text_ok lead ts = (list_all isspace lead \<and> tokens_ok ts)"

section \<open>USB transport and orchestration\<close>

subsection \<open>The environment\<close>

text \<open>
  The operating system, the sysfs tree and libusb are outside the program. What they
  answer during one run of \<^verbatim>\<open>setHardwareFilter\<close> is a parameter:
  the name of the interface's driver; what \<^verbatim>\<open>getUsbInfoFromDeviceName\<close> finds for the
  interface (vendor id, product id and serial number, or nothing); whether
  \<^verbatim>\<open>usb_device::open_vid_pid\<close> ends with a device handle; whether \<^verbatim>\<open>canfilter_usb::open()\<close>
  does, which tries the list \<^verbatim>\<open>default_vid_pid_list_\<close> of the class declaration; and for each
  of the three control transfers the value \<^verbatim>\<open>libusb_control_transfer\<close> returns, with the
  \<^verbatim>\<open>feature\<close> word and the \<^verbatim>\<open>dev\<close> byte found in the buffer afterwards.
\<close>

record usb_env =
  env_driver_name :: string
  env_usb_info :: "(16 word \<times> 16 word \<times> string) option"
  env_open_vid_pid :: "16 word \<Rightarrow> 16 word \<Rightarrow> string \<Rightarrow> bool"
  env_open_list :: bool
  env_bt_const :: "int \<times> u32"
  env_get_filter :: "int \<times> u8"
  env_set_filter :: "u32 \<Rightarrow> int"

text \<open>The image handed to \<^verbatim>\<open>programFilter\<close>: the \<^verbatim>\<open>hw_config\<close> of either back-end.\<close>

datatype hw_image =
    Bxcan_image bxcan_hw
  | Fdcan_image fdcan_hw

text \<open>
  The control transfers, by their request (\<^verbatim>\<open>gs_usb_breq\<close>). \<^verbatim>\<open>SET_FILTER\<close> carries the
  image and its size in bytes.
\<close>

datatype usb_transfer =
    GS_USB_BREQ_BT_CONST
  | GS_USB_BREQ_GET_FILTER
  | GS_USB_BREQ_SET_FILTER hw_image u32

text \<open>
  The \<^verbatim>\<open>canfilter_usb\<close> object: whether \<^verbatim>\<open>handle_\<close> is set, and the control transfers it
  has issued so far, oldest first.
\<close>

record usb_device =
  handle_set :: bool
  transfers :: "usb_transfer list"

definition usb_device_new :: usb_device where
  "usb_device_new = \<lparr>handle_set = False, transfers = []\<rparr>"

text \<open>
  \<^verbatim>\<open>open(vid, pid, serial)\<close> is \<^verbatim>\<open>open_vid_pid\<close>: it closes the device, then returns
  \<^verbatim>\<open>handle_ != nullptr\<close>.
\<close>

definition open_vid_pid ::
  "usb_env \<Rightarrow> usb_device \<Rightarrow> 16 word \<Rightarrow> 16 word \<Rightarrow> string \<Rightarrow> bool \<times> usb_device" where
  "open_vid_pid env u vid pid serial =
     (env_open_vid_pid env vid pid serial, u\<lparr>handle_set := env_open_vid_pid env vid pid serial\<rparr>)"

text \<open>
  The guard \<^verbatim>\<open>if (!handle_ && !open())\<close> of the three operations: \<^verbatim>\<open>open()\<close> runs only
  without a handle. The result is whether the guard lets the operation go on.
\<close>

definition ensure_open :: "usb_env \<Rightarrow> usb_device \<Rightarrow> bool \<times> usb_device" where
  "ensure_open env u =
     (if handle_set u then (True, u)
      else (env_open_list env, u\<lparr>handle_set := env_open_list env\<rparr>))"

definition GS_CAN_FEATURE_FILTER :: u32 where
  "GS_CAN_FEATURE_FILTER = push_bit 16 1"

text \<open>\<^verbatim>\<open>sizeof(gs_device_capability)\<close> is 40, \<^verbatim>\<open>sizeof(gs_filter_info)\<close> is 4.\<close>

definition hasHardwareFilter :: "usb_env \<Rightarrow> usb_device \<Rightarrow> bool \<times> usb_device" where
  "hasHardwareFilter env u =
     (let g = ensure_open env u in
      if \<not> fst g then (False, snd g)
      else
        (fst (env_bt_const env) = 40 \<and> snd (env_bt_const env) AND GS_CAN_FEATURE_FILTER \<noteq> 0,
         (snd g)\<lparr>transfers := transfers (snd g) @ [GS_USB_BREQ_BT_CONST]\<rparr>))"

definition getFilterInfo :: "usb_env \<Rightarrow> usb_device \<Rightarrow> u32 \<times> usb_device" where
  "getFilterInfo env u =
     (let g = ensure_open env u in
      if \<not> fst g then (0, snd g)
      else
        (if fst (env_get_filter env) \<noteq> 4 then 0 else ucast (snd (env_get_filter env)),
         (snd g)\<lparr>transfers := transfers (snd g) @ [GS_USB_BREQ_GET_FILTER]\<rparr>))"

definition programFilter ::
  "usb_env \<Rightarrow> usb_device \<Rightarrow> hw_image \<Rightarrow> u32 \<Rightarrow> bool \<times> usb_device" where
  "programFilter env u config sz =
     (let g = ensure_open env u in
      if \<not> fst g then (False, snd g)
      else
        (env_set_filter env sz = sint sz,
         (snd g)\<lparr>transfers := transfers (snd g) @ [GS_USB_BREQ_SET_FILTER config sz]\<rparr>))"

subsection \<open>The filter object\<close>

text \<open>
  \<^verbatim>\<open>std::unique_ptr<canfilter> filter\<close>: an object of one of the four concrete classes,
  reached through the virtual operations.
\<close>

datatype filter_obj =
    Bxcan bxcan_cfg bxcan
  | Fdcan fdcan_cfg fdcan

text \<open>The \<^verbatim>\<open>switch (hw_filter)\<close>; nothing for \<^verbatim>\<open>CANFILTER_DEV_NONE\<close> and \<^verbatim>\<open>default\<close>.\<close>

definition new_filter :: "u32 \<Rightarrow> filter_obj option" where
  "new_filter hw_filter =
     (if hw_filter = CANFILTER_DEV_BXCAN_F0 then Some (Bxcan bxcan_f0 (bxcan_new bxcan_f0))
      else if hw_filter = CANFILTER_DEV_BXCAN_F4 then Some (Bxcan bxcan_f4 (bxcan_new bxcan_f4))
      else if hw_filter = CANFILTER_DEV_FDCAN_G0 then Some (Fdcan fdcan_g0 (fdcan_new fdcan_g0))
      else if hw_filter = CANFILTER_DEV_FDCAN_H7 then Some (Fdcan fdcan_h7 (fdcan_new fdcan_h7))
      else None)"

fun filter_begin :: "filter_obj \<Rightarrow> canfilter_error_t \<times> filter_obj" where
  "filter_begin (Bxcan cfg s) = (fst (bxcan_begin cfg s), Bxcan cfg (snd (bxcan_begin cfg s)))"
| "filter_begin (Fdcan cfg s) = (fst (fdcan_begin cfg s), Fdcan cfg (snd (fdcan_begin cfg s)))"

fun filter_parse :: "filter_obj \<Rightarrow> string \<Rightarrow> bool \<times> filter_obj" where
  "filter_parse (Bxcan cfg s) input =
     (fst (parse (bxcan_ops cfg) input s), Bxcan cfg (snd (parse (bxcan_ops cfg) input s)))"
| "filter_parse (Fdcan cfg s) input =
     (fst (parse (fdcan_ops cfg) input s), Fdcan cfg (snd (parse (fdcan_ops cfg) input s)))"

fun filter_end :: "filter_obj \<Rightarrow> canfilter_error_t \<times> filter_obj" where
  "filter_end (Bxcan cfg s) = (fst (bxcan_end cfg s), Bxcan cfg (snd (bxcan_end cfg s)))"
| "filter_end (Fdcan cfg s) = (fst (fdcan_end cfg s), Fdcan cfg (snd (fdcan_end cfg s)))"

fun get_hw_config :: "filter_obj \<Rightarrow> hw_image" where
  "get_hw_config (Bxcan cfg s) = Bxcan_image (hw_config s)"
| "get_hw_config (Fdcan cfg s) = Fdcan_image (fd_hw_config s)"

text \<open>
  \<^verbatim>\<open>sizeof(hw_config)\<close> of the packed structures: 20 bytes and two words for each bank;
  4 bytes, one word for each standard and two for each extended element.
\<close>

fun get_hw_size :: "filter_obj \<Rightarrow> u32" where
  "get_hw_size (Bxcan cfg s) = 20 + 8 * ucast (max_banks cfg)"
| "get_hw_size (Fdcan cfg s) = 4 + 4 * max_std_filter cfg + 8 * max_ext_filter cfg"

subsection \<open>\<^verbatim>\<open>setHardwareFilter\<close> (HardwareFilter.cpp)\<close>

text \<open>
  The result is the boolean returned and the \<^verbatim>\<open>canfilter_usb\<close> object as it is at the
  return. The results of \<^verbatim>\<open>filter->begin()\<close> and \<^verbatim>\<open>filter->end()\<close> are dropped, as in the
  source.
\<close>

definition setHardwareFilter :: "usb_env \<Rightarrow> string \<Rightarrow> bool \<times> usb_device" where
  "setHardwareFilter env filter_def =
     (if env_driver_name env \<noteq> ''SocketCAN'' then (False, usb_device_new)
      else
        case env_usb_info env of
          None \<Rightarrow> (False, usb_device_new)
        | Some (vendor_id, product_id, serial) \<Rightarrow>
            (let opened = open_vid_pid env usb_device_new vendor_id product_id serial in
             if \<not> fst opened then (False, snd opened)
             else
               (let has = hasHardwareFilter env (snd opened) in
                if \<not> fst has then (False, snd has)
                else
                  (let info = getFilterInfo env (snd has) in
                   case new_filter (fst info) of
                     None \<Rightarrow> (False, snd info)
                   | Some filter0 \<Rightarrow>
                       (let filter1 = snd (filter_begin filter0);
                            parsed = filter_parse filter1 filter_def
                        in if \<not> fst parsed then (False, snd info)
                           else
                             (let filter2 = snd (filter_end (snd parsed));
                                  programmed = programFilter env (snd info) (get_hw_config filter2)
                                        (get_hw_size filter2)
                              in if \<not> fst programmed then (False, snd programmed)
                                 else (True, snd programmed)))))))"

text \<open>Whether a \<^verbatim>\<open>SET_FILTER\<close> transfer is among the transfers issued.\<close>

fun is_set_filter :: "usb_transfer \<Rightarrow> bool" where
  "is_set_filter (GS_USB_BREQ_SET_FILTER config sz) = True"
| "is_set_filter t = False"

definition set_filter_attempted :: "usb_device \<Rightarrow> bool" where
  "set_filter_attempted u = list_ex is_set_filter (transfers u)"

section \<open>Scenarios\<close>

text \<open>
  The FDCAN-28-8 builder after \<^verbatim>\<open>begin()\<close>, \<^verbatim>\<open>add_std_id(0x100)\<close> and
  \<^verbatim>\<open>add_std_id(0x200)\<close>.
\<close>

definition fdcan_two_ids :: fdcan where
  "fdcan_two_ids =
     snd (fdcan_add_std_id fdcan_g0
            (snd (fdcan_add_std_id fdcan_g0
                    (snd (fdcan_begin fdcan_g0 (fdcan_new fdcan_g0))) 0x100)) 0x200)"

text \<open>Builders whose capacity is used up: every bank, or every element, is taken.\<close>

definition bxcan_f0_full :: bxcan where
  "bxcan_f0_full = (bxcan_new bxcan_f0)\<lparr>bank := 14\<rparr>"

definition fdcan_g0_full :: fdcan where
  "fdcan_g0_full =
     (fdcan_new fdcan_g0)\<lparr>fd_hw_config :=
        (fdcan_hw_t fdcan_g0)\<lparr>std_filter_nbr := 28, ext_filter_nbr := 8\<rparr>\<rparr>"

text \<open>
  The bxCAN-14 builder after \<^verbatim>\<open>begin()\<close>, \<^verbatim>\<open>add_std_id(0x100)\<close> and \<^verbatim>\<open>end()\<close>.
\<close>

definition bxcan_one_id :: bxcan where
  "bxcan_one_id =
     bxcan_run bxcan_f0 (snd (bxcan_begin bxcan_f0 (bxcan_new bxcan_f0)))
       [Add_std_id 0x100, End]"

text \<open>
  A builder with one pending standard identifier: after \<^verbatim>\<open>begin()\<close> and
  \<^verbatim>\<open>add_std_id(0x100)\<close>, on bxCAN-14 and on FDCAN-28-8.
\<close>

definition bxcan_pending :: bxcan where
  "bxcan_pending =
     snd (bxcan_add_std_id bxcan_f0 (snd (bxcan_begin bxcan_f0 (bxcan_new bxcan_f0))) 0x100)"

definition fdcan_pending :: fdcan where
  "fdcan_pending =
     snd (fdcan_add_std_id fdcan_g0 (snd (fdcan_begin fdcan_g0 (fdcan_new fdcan_g0))) 0x100)"

text \<open>
  An environment in which every step outside the filter object succeeds: a SocketCAN
  interface on a USB device that opens, reports the filter feature, names the given
  controller and acknowledges every transfer in full.
\<close>

definition env_ok :: "u8 \<Rightarrow> usb_env" where
  "env_ok d =
     \<lparr>env_driver_name = ''SocketCAN'', env_usb_info = Some (0x1D50, 0x606F, []),
      env_open_vid_pid = (\<lambda>vid pid serial. True), env_open_list = True,
      env_bt_const = (40, GS_CAN_FEATURE_FILTER), env_get_filter = (4, d),
      env_set_filter = sint\<rparr>"

text \<open>The same, with the hardware-filter bit of the feature word clear.\<close>

definition env_no_feature :: usb_env where
  "env_no_feature = (env_ok 1)\<lparr>env_bt_const := (40, 0)\<rparr>"

section \<open>Verification\<close>

subsection \<open>Evaluation rules\<close>

lemmas fdcan_eval =
  fdcan_add_std_id_def fdcan_add_ext_id_def fdcan_emit_std_id_def fdcan_emit_ext_id_def
  fdcan_emit_std_range_def fdcan_emit_ext_range_def fdcan_add_std_range_def
  fdcan_add_ext_range_def fdcan_begin_def fdcan_end_def fdcan_new_def fdcan_g0_def fdcan_h7_def
  fdcan_hw_t_def max_std_id_def max_ext_id_def SFT_DUAL_def SFT_RANGE_def SFEC_RX_FIFO0_def
  EFT_DUAL_def EFT_RANGE_def EFEC_RX_FIFO0_def CANFILTER_DEV_FDCAN_G0_def
  CANFILTER_DEV_FDCAN_H7_def Let_def

subsection \<open>Emission at exhausted capacity\<close>

text \<open>
  C3. When the capacity is already used up (bxCAN: \<^verbatim>\<open>bank == max_banks\<close>; FDCAN:
  \<^verbatim>\<open>std_filter_nbr == max_std_filter\<close> for a standard element, \<^verbatim>\<open>ext_filter_nbr ==
  max_ext_filter\<close> for an extended element), every emitter returns
  \<^verbatim>\<open>CANFILTER_ERROR_FULL\<close> and hands the builder back exactly as it was: the hardware image
  is the one before the call, so every slot that was zero is still zero.
\<close>

theorem emission_when_full:
  "(bank s = ucast (max_banks cfg) \<longrightarrow>
      bxcan_emit_std_list cfg s i1 i2 i3 i4 = (CANFILTER_ERROR_FULL, s) \<and>
      bxcan_emit_std_mask cfg s i1 m1 i2 m2 = (CANFILTER_ERROR_FULL, s) \<and>
      bxcan_emit_ext_list cfg s i1 i2 = (CANFILTER_ERROR_FULL, s) \<and>
      bxcan_emit_ext_mask cfg s i1 m1 = (CANFILTER_ERROR_FULL, s)) \<and>
   (ucast (std_filter_nbr (fd_hw_config t)) = max_std_filter fcfg \<longrightarrow>
      fdcan_emit_std_id fcfg t i1 i2 = (CANFILTER_ERROR_FULL, t) \<and>
      fdcan_emit_std_range fcfg t i1 i2 = (CANFILTER_ERROR_FULL, t)) \<and>
   (ucast (ext_filter_nbr (fd_hw_config t)) = max_ext_filter fcfg \<longrightarrow>
      fdcan_emit_ext_id fcfg t i1 i2 = (CANFILTER_ERROR_FULL, t) \<and>
      fdcan_emit_ext_range fcfg t i1 i2 = (CANFILTER_ERROR_FULL, t))"
  by (simp add: bxcan_emit_std_list_def bxcan_emit_std_mask_def bxcan_emit_ext_list_def
      bxcan_emit_ext_mask_def fdcan_emit_std_id_def fdcan_emit_std_range_def
      fdcan_emit_ext_id_def fdcan_emit_ext_range_def Let_def)

theorem emission_when_full_witness:
  "bank bxcan_f0_full = ucast (max_banks bxcan_f0) \<and>
   ucast (std_filter_nbr (fd_hw_config fdcan_g0_full)) = max_std_filter fdcan_g0 \<and>
   ucast (ext_filter_nbr (fd_hw_config fdcan_g0_full)) = max_ext_filter fdcan_g0 \<and>
   bxcan_emit_std_list bxcan_f0 bxcan_f0_full 1 2 3 4 = (CANFILTER_ERROR_FULL, bxcan_f0_full) \<and>
   bxcan_emit_std_mask bxcan_f0 bxcan_f0_full 1 0x7FE 2 0x7FE = (CANFILTER_ERROR_FULL, bxcan_f0_full) \<and>
   bxcan_emit_ext_list bxcan_f0 bxcan_f0_full 1 2 = (CANFILTER_ERROR_FULL, bxcan_f0_full) \<and>
   bxcan_emit_ext_mask bxcan_f0 bxcan_f0_full 1 0x7FE = (CANFILTER_ERROR_FULL, bxcan_f0_full) \<and>
   fdcan_emit_std_id fdcan_g0 fdcan_g0_full 1 2 = (CANFILTER_ERROR_FULL, fdcan_g0_full) \<and>
   fdcan_emit_std_range fdcan_g0 fdcan_g0_full 1 2 = (CANFILTER_ERROR_FULL, fdcan_g0_full) \<and>
   fdcan_emit_ext_id fdcan_g0 fdcan_g0_full 1 2 = (CANFILTER_ERROR_FULL, fdcan_g0_full) \<and>
   fdcan_emit_ext_range fdcan_g0 fdcan_g0_full 1 2 = (CANFILTER_ERROR_FULL, fdcan_g0_full)"
proof -
  have b: "bank bxcan_f0_full = ucast (max_banks bxcan_f0)"
    by (simp add: bxcan_f0_full_def bxcan_f0_def)
  have f: "ucast (std_filter_nbr (fd_hw_config fdcan_g0_full)) = max_std_filter fdcan_g0"
    "ucast (ext_filter_nbr (fd_hw_config fdcan_g0_full)) = max_ext_filter fdcan_g0"
    by (simp_all add: fdcan_g0_full_def fdcan_g0_def)
  show ?thesis
    using b f
      emission_when_full [of bxcan_f0_full bxcan_f0 1 2 3 4 "0x7FE" "0x7FE" fdcan_g0_full fdcan_g0]
    by simp
qed

subsection \<open>Two single identifiers on FDCAN-28-8\<close>

text \<open>
  C5, as the specification states it, asks for the filter word \<open>0x48100200\<close>. The builder
  stores \<open>(1<<30)|(1<<27)|(0x100<<16)|0x200\<close>, and that number is \<open>0x49000200\<close>: the
  claimed hexadecimal value is not the value of the claimed formula.
\<close>

theorem fdcan_two_ids_word_counterexample:
  "\<not> (std_filter_nbr (fd_hw_config fdcan_two_ids) = 1 \<and>
      std_filter (fd_hw_config fdcan_two_ids) ! 0 = 0x48100200)"
  by (simp add: fdcan_two_ids_def fdcan_eval)

text \<open>
  C5, amended. On the FDCAN-28-8 builder, after \<^verbatim>\<open>begin()\<close>, \<^verbatim>\<open>add_std_id(0x100)\<close> and
  \<^verbatim>\<open>add_std_id(0x200)\<close>, exactly one standard dual-ID element has been emitted:
  \<^verbatim>\<open>std_filter_nbr == 1\<close> and \<^verbatim>\<open>std_filter[0] == (1<<30)|(1<<27)|(0x100<<16)|0x200 ==
  0x49000200\<close>.
\<close>

theorem fdcan_two_ids_word:
  "std_filter_nbr (fd_hw_config fdcan_two_ids) = 1 \<and>
   std_filter (fd_hw_config fdcan_two_ids) ! 0 =
     (push_bit 30 1 OR push_bit 27 1 OR push_bit 16 0x100 OR 0x200) \<and>
   std_filter (fd_hw_config fdcan_two_ids) ! 0 = 0x49000200 \<and>
   std_id_count fdcan_two_ids = 0"
  by (simp add: fdcan_two_ids_def fdcan_eval)

subsection \<open>Word arithmetic\<close>

lemma unat_pow2: "n \<le> 30 \<Longrightarrow> unat (2 ^ n :: u32) = 2 ^ n"
proof -
  assume "n \<le> 30"
  then have lt: "(2::nat) ^ n < 2 ^ 32" by (intro power_strict_increasing) simp_all
  have "unat (2 ^ n :: u32) = unat (of_nat (2 ^ n) :: u32)" by simp
  also have "\<dots> = 2 ^ n mod 2 ^ 32" by (simp only: unat_of_nat) simp
  also have "\<dots> = 2 ^ n" using lt by simp
  finally show ?thesis .
qed

lemma pow2_le_30: "n \<le> 30 \<Longrightarrow> (2::nat) ^ n \<le> 2 ^ 30"
  by (intro power_increasing) simp_all

lemma unat_mask_u32: "n \<le> 30 \<Longrightarrow> unat (mask n :: u32) = 2 ^ n - 1"
proof -
  assume n: "n \<le> 30"
  have "(2 ^ n :: u32) \<noteq> 0"
    using unat_pow2[OF n] by (metis power_not_zero unat_0 zero_neq_numeral)
  then show ?thesis using unat_pow2[OF n] by (simp add: mask_eq_decr_exp unat_minus_one)
qed

lemma le_mask_unat: "n \<le> 30 \<Longrightarrow> ((e::u32) \<le> mask n) = (unat e < 2 ^ n)"
proof -
  assume n: "n \<le> 30"
  have "0 < (2::nat) ^ n" by simp
  then have "(unat e \<le> 2 ^ n - 1) = (unat e < 2 ^ n)" by arith
  then show ?thesis by (simp add: word_le_nat_alt unat_mask_u32[OF n])
qed


subsection \<open>The largest prefix\<close>

lemma lp1_bounds: "0 \<le> p \<Longrightarrow> 0 \<le> largest_prefix_loop1 W b p \<and> largest_prefix_loop1 W b p \<le> p"
proof (induction W b p rule: largest_prefix_loop1.induct)
  case (1 W b p)
  show ?case
    using 1 by (subst largest_prefix_loop1.simps, subst (2) largest_prefix_loop1.simps) auto
qed

lemma lp2_bounds: "p \<le> W \<Longrightarrow> p \<le> largest_prefix_loop2 W b e p \<and> largest_prefix_loop2 W b e p \<le> W"
proof (induction W b e p rule: largest_prefix_loop2.induct)
  case (1 W b e p)
  show ?case
    using 1 by (subst largest_prefix_loop2.simps, subst (2) largest_prefix_loop2.simps) auto
qed

lemma and_bit_mask_Suc: "(b::u32) AND mask k = 0 \<Longrightarrow> b AND push_bit k 1 = 0 \<Longrightarrow> b AND mask (Suc k) = 0"
  by (simp add: mask_Suc_exp bit.conj_disj_distrib)

lemma lp1_aligned: "0 \<le> p \<Longrightarrow> p \<le> W \<Longrightarrow> b AND mask (nat (W - p)) = 0
   \<Longrightarrow> b AND mask (nat (W - largest_prefix_loop1 W b p)) = 0"
proof (induction W b p rule: largest_prefix_loop1.induct)
  case (1 W b p)
  show ?case
  proof (cases "p > 0 \<and> b AND push_bit (nat (W - p)) 1 = 0")
    case True
    then have eq: "largest_prefix_loop1 W b p = largest_prefix_loop1 W b (p - 1)"
      by (subst largest_prefix_loop1.simps) simp
    have "nat (W - (p - 1)) = Suc (nat (W - p))" using 1(3) by simp
    with and_bit_mask_Suc[OF 1(4)] True have "b AND mask (nat (W - (p - 1))) = 0" by simp
    with 1(1)[of ] True 1(2,3) show ?thesis unfolding eq by simp
  next
    case False
    then have "largest_prefix_loop1 W b p = p"
      by (subst largest_prefix_loop1.simps) auto
    with 1(4) show ?thesis by simp
  qed
qed

lemma lp1_bit: "0 < largest_prefix_loop1 W b p \<Longrightarrow>
   b AND push_bit (nat (W - largest_prefix_loop1 W b p)) 1 \<noteq> 0"
proof (induction W b p rule: largest_prefix_loop1.induct)
  case (1 W b p)
  show ?case
  proof (cases "p > 0 \<and> b AND push_bit (nat (W - p)) 1 = 0")
    case True
    then have eq: "largest_prefix_loop1 W b p = largest_prefix_loop1 W b (p - 1)"
      by (subst largest_prefix_loop1.simps) simp
    with 1 True show ?thesis by simp
  next
    case False
    then have eq: "largest_prefix_loop1 W b p = p"
      by (subst largest_prefix_loop1.simps) auto
    with 1(2) False show ?thesis by simp
  qed
qed

lemma lp2_fits: "largest_prefix_loop2 W b e p < W \<Longrightarrow>
   \<not> b + push_bit (nat (W - largest_prefix_loop2 W b e p)) 1 - 1 > e"
proof (induction W b e p rule: largest_prefix_loop2.induct)
  case (1 W b e p)
  show ?case
  proof (cases "p < W \<and> b + push_bit (nat (W - p)) 1 - 1 > e")
    case True
    then have eq: "largest_prefix_loop2 W b e p = largest_prefix_loop2 W b e (p + 1)"
      by (subst largest_prefix_loop2.simps) simp
    with 1 True show ?thesis by simp
  next
    case False
    then have eq: "largest_prefix_loop2 W b e p = p"
      by (subst largest_prefix_loop2.simps) auto
    with 1(2) False show ?thesis by simp
  qed
qed

lemma lp2_max: "p \<le> p' \<Longrightarrow> p' < largest_prefix_loop2 W b e p \<Longrightarrow>
   b + push_bit (nat (W - p')) 1 - 1 > e"
proof (induction W b e p rule: largest_prefix_loop2.induct)
  case (1 W b e p)
  show ?case
  proof (cases "p < W \<and> b + push_bit (nat (W - p)) 1 - 1 > e")
    case True
    then have eq: "largest_prefix_loop2 W b e p = largest_prefix_loop2 W b e (p + 1)"
      by (subst largest_prefix_loop2.simps) simp
    show ?thesis
    proof (cases "p' = p")
      case True
      with \<open>p < W \<and> b + push_bit (nat (W - p)) 1 - 1 > e\<close> show ?thesis by simp
    next
      case False
      with 1(2) have "p + 1 \<le> p'" by simp
      with 1(1) True 1(3) eq show ?thesis by simp
    qed
  next
    case False
    then have eq: "largest_prefix_loop2 W b e p = p"
      by (subst largest_prefix_loop2.simps) auto
    with 1(2,3) show ?thesis by simp
  qed
qed

lemma aligned_dvd: "((b::u32) AND mask k = 0) = (2 ^ k dvd unat b)"
  by (simp add: and_mask_dvd_nat)

lemma aligned_mono: "(b::u32) AND mask k = 0 \<Longrightarrow> j \<le> k \<Longrightarrow> b AND mask j = 0"
  unfolding aligned_dvd by (meson dvd_trans le_imp_power_dvd)

lemma aligned_bit_clear: "(b::u32) AND mask j = 0 \<Longrightarrow> n < j \<Longrightarrow> b AND push_bit n 1 = 0"
proof -
  assume a: "b AND mask j = 0" and n: "n < j"
  then have "b AND mask (Suc n) = 0" by (intro aligned_mono[OF a]) simp
  then have "(b AND 2 ^ n) OR (b AND mask n) = 0"
    by (simp add: mask_Suc_exp bit.conj_disj_distrib)
  then show ?thesis by (simp add: or_eq_0_iff)
qed

lemma block_end_unat:
  assumes "k \<le> 30" "unat (b::u32) < 2 ^ 30"
  shows "unat (b + push_bit k 1 - 1) = unat b + 2 ^ k - 1"
    and "unat (b + push_bit k 1) = unat b + 2 ^ k"
proof -
  have p: "(2::nat) ^ k \<le> 2 ^ 30" using assms(1) by (intro power_increasing) simp_all
  have lt: "(2::nat) ^ k < 2 ^ 32" using assms(1) by (intro power_strict_increasing) simp_all
  have "unat (2 ^ k :: u32) = unat (of_nat (2 ^ k) :: u32)" by simp
  also have "\<dots> = 2 ^ k mod 2 ^ 32" by (simp only: unat_of_nat) simp
  also have "\<dots> = 2 ^ k" using lt by simp
  finally have u: "unat (2 ^ k :: u32) = 2 ^ k" .
  show s: "unat (b + push_bit k 1) = unat b + 2 ^ k"
    using p assms(2) by (simp add: unat_word_ariths u)
  have "b + push_bit k 1 \<noteq> 0"
    using s by (metis add_is_0 power_not_zero unat_0 zero_neq_numeral)
  then show "unat (b + push_bit k 1 - 1) = unat b + 2 ^ k - 1"
    using s by (simp add: unat_minus_one)
qed

lemma largest_prefix_spec:
  assumes W: "0 \<le> W" "W \<le> 30" and be: "b \<le> e" and e: "unat e < 2 ^ nat W"
  defines "p \<equiv> largest_prefix W b e"
  shows "0 \<le> p" and "p \<le> W"
    and "b AND mask (nat (W - p)) = 0"
    and "unat b + 2 ^ nat (W - p) \<le> unat e + 1"
    and "\<And>j. j \<le> nat W \<Longrightarrow> b AND mask j = 0 \<Longrightarrow> unat b + 2 ^ j \<le> unat e + 1
            \<Longrightarrow> j \<le> nat (W - p)"
proof -
  define q where "q = largest_prefix_loop1 W b W"
  have p: "p = largest_prefix_loop2 W b e q" by (simp add: p_def q_def largest_prefix_def)
  have q: "0 \<le> q" "q \<le> W" using lp1_bounds[OF W(1), of W b] by (simp_all add: q_def)
  have pb: "q \<le> p" "p \<le> W" using lp2_bounds[OF q(2), of b e] by (simp_all add: p)
  show "0 \<le> p" "p \<le> W" using q pb by simp_all
  have qa: "b AND mask (nat (W - q)) = 0"
    unfolding q_def using W by (intro lp1_aligned) simp_all
  show pa: "b AND mask (nat (W - p)) = 0"
    using pb by (intro aligned_mono[OF qa]) simp
  have ub: "unat b \<le> unat e" using be by (simp add: word_le_nat_alt)
  have "(2::nat) ^ nat W \<le> 2 ^ 30" using W by (intro power_increasing) simp_all
  with e ub have b30: "unat b < 2 ^ 30" by simp
  have k30: "\<And>x. 0 \<le> x \<Longrightarrow> nat (W - x) \<le> 30" using W by simp
  show fits: "unat b + 2 ^ nat (W - p) \<le> unat e + 1"
  proof (cases "p < W")
    case True
    then have "\<not> e < b + push_bit (nat (W - p)) 1 - 1"
      unfolding p by (rule lp2_fits)
    then have "unat b + 2 ^ nat (W - p) - 1 \<le> unat e"
      using block_end_unat(1)[OF k30 b30, of p] \<open>0 \<le> p\<close>
      by (simp add: word_less_nat_alt not_less)
    then show ?thesis by simp
  next
    case False
    with pb have "p = W" by simp
    with ub show ?thesis by simp
  qed
  fix j
  assume j: "j \<le> nat W" and ja: "b AND mask j = 0" and jf: "unat b + 2 ^ j \<le> unat e + 1"
  have jq: "j \<le> nat (W - q)"
  proof (cases "0 < q")
    case True
    then have "b AND push_bit (nat (W - q)) 1 \<noteq> 0"
      unfolding q_def by (rule lp1_bit)
    with aligned_bit_clear[OF ja, of "nat (W - q)"] show ?thesis by (meson not_le)
  next
    case False
    with q have "q = 0" by simp
    with j show ?thesis by simp
  qed
  show "j \<le> nat (W - p)"
  proof (rule ccontr)
    assume "\<not> j \<le> nat (W - p)"
    then have lt: "W - int j < p" by simp
    have ge: "q \<le> W - int j" using jq q by simp
    have "e < b + push_bit (nat (W - (W - int j))) 1 - 1"
      using ge lt unfolding p by (rule lp2_max)
    then have "unat e < unat b + 2 ^ j - 1"
      using block_end_unat(1)[OF _ b30, of j] j W
      by (simp add: word_less_nat_alt)
    with jf show False by simp
  qed
qed

subsection \<open>Decoding a block\<close>

lemma le_mask_bit: "n \<le> 30 \<Longrightarrow> (b::u32) \<le> mask n \<Longrightarrow> bit b i \<Longrightarrow> i < n"
proof -
  assume n: "n \<le> 30" and b: "b \<le> mask n" and i: "bit b i"
  have "unat b < 2 ^ n" using b by (simp add: le_mask_unat[OF n])
  then have "int (unat b) < int (2 ^ n)" by (simp only: of_nat_less_iff)
  then have "uint b < 2 ^ n" by simp
  then have "b AND mask n = b" by (simp add: mask_eq_iff)
  then have "bit (b AND mask n) i" using i by simp
  then show ?thesis by (simp add: bit_simps)
qed

lemma decode_block_word:
  assumes "k \<le> n" "n \<le> 30" "(b::u32) \<le> mask n" "b AND mask k = 0"
  shows "(b OR NOT (push_bit k (NOT 0) AND mask n)) AND mask n = b + mask k"
proof -
  have disj: "b + mask k = b OR mask k"
    using assms(4) by (rule disjunctive_add_eq_or)
  show ?thesis
    unfolding disj
    using le_mask_bit[OF assms(2,3)] assms(1,2)
    by (auto simp: bit_eq_iff bit_simps)
qed

lemma decode_block_unat:
  assumes "k \<le> n" "n \<le> 30" "(b::u32) \<le> mask n" "b AND mask k = 0"
  shows "unat ((b OR NOT (push_bit k (NOT 0) AND mask n)) AND mask n) = unat b + 2 ^ k - 1"
proof -
  have k: "k \<le> 30" using assms by simp
  have b: "unat b < 2 ^ 30"
    using assms(2,3) pow2_le_30[OF assms(2)] by (simp add: le_mask_unat)
  have "0 < (2::nat) ^ k" by simp
  then have "unat (b + mask k) = unat b + 2 ^ k - 1"
    using b pow2_le_30[OF k] by (simp add: unat_word_ariths unat_mask_u32[OF k])
  then show ?thesis
    by (simp only: decode_block_word[OF assms])
qed

lemma block_ids_char:
  assumes "k \<le> n" "n \<le> 30" "(b::u32) \<le> mask n" "b AND mask k = 0"
  shows "(x \<in> block_ids (mask n) (b, push_bit k (NOT 0) AND mask n))
         = (unat b \<le> unat x \<and> unat x < unat b + 2 ^ k)"
proof -
  have "0 < (2::nat) ^ k" by simp
  then have "(unat x \<le> unat b + 2 ^ k - 1) = (unat x < unat b + 2 ^ k)" by arith
  then show ?thesis
    by (simp only: block_ids_def fst_conv snd_conv atLeastAtMost_iff word_le_nat_alt
        decode_block_unat[OF assms])
qed

subsection \<open>The blocks of a range cover it, disjointly\<close>

lemma range_blocks_Cons:
  "b \<le> e \<Longrightarrow> e \<le> mask (nat W) \<Longrightarrow> 0 \<le> W \<Longrightarrow> W \<le> 30 \<Longrightarrow>
   range_blocks W b e =
     (b, push_bit (block_log W b e) (NOT 0) AND mask (nat W))
       # range_blocks W (b + push_bit (block_log W b e) 1) e"
  by (subst range_blocks.simps) (simp only: block_log_def Let_def simp_thms if_True)

lemma range_blocks_Nil: "\<not> b \<le> e \<Longrightarrow> range_blocks W b e = []"
  by (subst range_blocks.simps) (simp only: simp_thms if_False)

lemma block_log_facts:
  assumes "b \<le> e" "e \<le> mask (nat W)" "0 \<le> W" "W \<le> 30"
  shows "block_log W b e \<le> nat W"
    and "b AND mask (block_log W b e) = 0"
    and "unat b + 2 ^ block_log W b e \<le> unat e + 1"
    and "unat (b + push_bit (block_log W b e) 1) = unat b + 2 ^ block_log W b e"
    and "b \<le> mask (nat W)"
    and "\<And>j. j \<le> nat W \<Longrightarrow> b AND mask j = 0 \<Longrightarrow> unat b + 2 ^ j \<le> unat e + 1
            \<Longrightarrow> j \<le> block_log W b e"
proof -
  have n: "nat W \<le> 30" using assms(3,4) by simp
  have e: "unat e < 2 ^ nat W" using assms(2) by (simp add: le_mask_unat[OF n])
  note sp = largest_prefix_spec[OF assms(3,4,1) e]
  show k: "block_log W b e \<le> nat W" using sp(1,2) by (simp add: block_log_def)
  show "b AND mask (block_log W b e) = 0" using sp(3) by (simp add: block_log_def)
  show "unat b + 2 ^ block_log W b e \<le> unat e + 1" using sp(4) by (simp add: block_log_def)
  have ub: "unat b \<le> unat e" using assms(1) by (simp add: word_le_nat_alt)
  with e pow2_le_30[OF n] have b30: "unat b < 2 ^ 30" by simp
  show "unat (b + push_bit (block_log W b e) 1) = unat b + 2 ^ block_log W b e"
    using k n by (intro block_end_unat(2)[OF _ b30]) simp
  show "b \<le> mask (nat W)" using assms(1,2) by simp
  fix j
  assume "j \<le> nat W" "b AND mask j = 0" "unat b + 2 ^ j \<le> unat e + 1"
  then show "j \<le> block_log W b e" unfolding block_log_def by (rule sp(5))
qed

lemma range_blocks_ids:
  "0 \<le> W \<Longrightarrow> W \<le> 30 \<Longrightarrow> e \<le> mask (nat W) \<Longrightarrow>
   (x \<in> (\<Union>c\<in>set (range_blocks W b e). block_ids (mask (nat W)) c))
     = (unat b \<le> unat x \<and> unat x \<le> unat e)"
proof (induction W b e rule: range_blocks.induct)
  case (1 W b e)
  show ?case
  proof (cases "b \<le> e")
    case True
    note f = block_log_facts[OF True 1(4) 1(2) 1(3)]
    have n: "nat W \<le> 30" using 1(2,3) by simp
    have IH: "(x \<in> (\<Union>c\<in>set (range_blocks W (b + push_bit (block_log W b e) 1) e).
                 block_ids (mask (nat W)) c))
      = (unat (b + push_bit (block_log W b e) 1) \<le> unat x \<and> unat x \<le> unat e)"
      using 1(1)[OF _ refl refl 1(2) 1(3) 1(4)] True 1(2,3,4)
      by (simp only: block_log_def simp_thms)
    show ?thesis
      unfolding range_blocks_Cons[OF True 1(4) 1(2) 1(3)]
      using f(3)
      by (simp only: list.set UN_insert Un_iff IH block_ids_char[OF f(1) n f(5) f(2)] f(4))
        arith
  next
    case False
    then have "\<not> (unat b \<le> unat x \<and> unat x \<le> unat e)"
      by (simp add: word_le_nat_alt)
    then show ?thesis by (simp add: range_blocks_Nil[OF False])
  qed
qed

lemma range_blocks_cidr:
  "0 \<le> W \<Longrightarrow> W \<le> 30 \<Longrightarrow> e \<le> mask (nat W) \<Longrightarrow> c \<in> set (range_blocks W b e)
   \<Longrightarrow> cidr_block (nat W) c"
proof (induction W b e rule: range_blocks.induct)
  case (1 W b e)
  show ?case
  proof (cases "b \<le> e")
    case True
    note f = block_log_facts[OF True 1(4) 1(2) 1(3)]
    from 1(5) have "c = (b, push_bit (block_log W b e) (NOT 0) AND mask (nat W))
        \<or> c \<in> set (range_blocks W (b + push_bit (block_log W b e) 1) e)"
      unfolding range_blocks_Cons[OF True 1(4) 1(2) 1(3)] by simp
    then show ?thesis
    proof
      assume c: "c = (b, push_bit (block_log W b e) (NOT 0) AND mask (nat W))"
      have "block_log W b e \<in> {0..nat W}" using f(1) by simp
      then show ?thesis
        unfolding cidr_block_def c fst_conv snd_conv using f(5) f(2) by blast
    next
      assume "c \<in> set (range_blocks W (b + push_bit (block_log W b e) 1) e)"
      then show ?thesis
        using 1(1)[OF _ refl refl 1(2) 1(3) 1(4)] True 1(2,3,4)
        by (simp only: block_log_def simp_thms)
    qed
  next
    case False
    with 1(5) show ?thesis by (simp add: range_blocks_Nil)
  qed
qed

lemma cidr_block_bounds: "cidr_block n c \<Longrightarrow> fst c \<le> mask n \<and> snd c \<le> mask n"
  unfolding cidr_block_def by (auto simp: word_and_le1)

lemma cidr_block_ids:
  assumes "cidr_block n c" "n \<le> 30"
  shows "\<exists>k\<le>n. fst c AND mask k = 0 \<and> fst c \<le> mask n \<and>
           (\<forall>x. (x \<in> block_ids (mask n) c)
                  = (unat (fst c) \<le> unat x \<and> unat x < unat (fst c) + 2 ^ k))"
proof -
  from assms(1) obtain k where k: "k \<le> n" "snd c = push_bit k (NOT 0) AND mask n"
    "fst c \<le> mask n" "fst c AND mask k = 0"
    unfolding cidr_block_def by auto
  have c: "c = (fst c, push_bit k (NOT 0) AND mask n)" using k(2) by (metis prod.collapse)
  have "\<And>x. (x \<in> block_ids (mask n) c) = (unat (fst c) \<le> unat x \<and> unat x < unat (fst c) + 2 ^ k)"
    by (subst c) (rule block_ids_char[OF k(1) assms(2) k(3) k(4)])
  with k show ?thesis by blast
qed

lemma range_blocks_disjoint:
  "0 \<le> W \<Longrightarrow> W \<le> 30 \<Longrightarrow> e \<le> mask (nat W) \<Longrightarrow>
   disjoint_blocks (mask (nat W)) (range_blocks W b e)"
proof (induction W b e rule: range_blocks.induct)
  case (1 W b e)
  show ?case
  proof (cases "b \<le> e")
    case True
    note f = block_log_facts[OF True 1(4) 1(2) 1(3)]
    have n: "nat W \<le> 30" using 1(2,3) by simp
    let ?b' = "b + push_bit (block_log W b e) 1"
    let ?c = "(b, push_bit (block_log W b e) (NOT 0) AND mask (nat W))"
    have IH: "disjoint_blocks (mask (nat W)) (range_blocks W ?b' e)"
      using 1(1)[OF _ refl refl 1(2) 1(3) 1(4)] True 1(2,3,4)
      by (simp only: block_log_def simp_thms)
    have "block_ids (mask (nat W)) ?c \<inter> block_ids (mask (nat W)) d = {}"
      if d: "d \<in> set (range_blocks W ?b' e)" for d
    proof -
      have "False" if x: "x \<in> block_ids (mask (nat W)) ?c" "x \<in> block_ids (mask (nat W)) d" for x
      proof -
        from x(2) d have "x \<in> (\<Union>c\<in>set (range_blocks W ?b' e). block_ids (mask (nat W)) c)"
          by blast
        then have "unat ?b' \<le> unat x"
          by (simp only: range_blocks_ids[OF 1(2) 1(3) 1(4)])
        moreover have "unat x < unat b + 2 ^ block_log W b e"
          using x(1) by (simp only: block_ids_char[OF f(1) n f(5) f(2)])
        ultimately show False by (simp only: f(4))
      qed
      then show ?thesis by blast
    qed
    with IH show ?thesis
      unfolding range_blocks_Cons[OF True 1(4) 1(2) 1(3)] by simp
  next
    case False
    then show ?thesis by (simp add: range_blocks_Nil)
  qed
qed

subsection \<open>No cover has fewer blocks\<close>

lemma aligned_blocks_nested:
  fixes x y z j k :: nat
  assumes "2 ^ j dvd x" "2 ^ k dvd y" "j \<le> k"
    and "x \<le> z" "z < x + 2 ^ j" "y \<le> z" "z < y + 2 ^ k"
  shows "y \<le> x \<and> x + 2 ^ j \<le> y + 2 ^ k"
proof -
  from assms(1) obtain a where a: "x = 2 ^ j * a" by (auto simp: dvd_def)
  from assms(2) obtain m where m: "y = 2 ^ k * m" by (auto simp: dvd_def)
  define t :: nat where "t = 2 ^ (k - j)"
  have k: "(2::nat) ^ k = 2 ^ j * t"
    using assms(3) by (simp add: t_def flip: power_add)
  have y: "y = 2 ^ j * (t * m)" by (simp add: m k)
  have pos: "0 < (2::nat) ^ j" by simp
  have "2 ^ j * (t * m) < 2 ^ j * (a + 1)"
    using assms(5,6) by (simp add: a y)
  then have 1: "t * m < a + 1" by (simp only: nat_mult_less_cancel1[OF pos])
  have "2 ^ j * a < 2 ^ j * (t * m + t)"
    using assms(4,7) by (simp add: a y k distrib_left)
  then have 2: "a < t * m + t" by (simp only: nat_mult_less_cancel1[OF pos])
  have "t * m \<le> a" using 1 by simp
  then have "2 ^ j * (t * m) \<le> 2 ^ j * a" by (rule mult_le_mono2)
  moreover have "a + 1 \<le> t * m + t" using 2 by simp
  then have "2 ^ j * (a + 1) \<le> 2 ^ j * (t * m + t)" by (rule mult_le_mono2)
  ultimately show ?thesis by (simp add: a y k distrib_left)
qed

lemma word_with_unat: "n < 2 ^ 32 \<Longrightarrow> unat (of_nat n :: u32) = n"
  by (simp add: unat_of_nat)

lemma range_blocks_minimal:
  assumes "0 \<le> W" "W \<le> 30" "e \<le> mask (nat W)"
    and "\<forall>c\<in>set cs. cidr_block (nat W) c"
    and "\<And>x. (x \<in> (\<Union>c\<in>set cs. block_ids (mask (nat W)) c))
            = (unat b \<le> unat x \<and> unat x \<le> unat e)"
  shows "length (range_blocks W b e) \<le> length cs"
  using assms
proof (induction W b e arbitrary: cs rule: range_blocks.induct)
  case (1 W b e)
  note W = 1(2,3) and e = 1(4) and cidr = 1(5) and cover = 1(6)
  have n: "nat W \<le> 30" using W by simp
  let ?ids = "block_ids (mask (nat W))"
  show ?case
  proof (cases "b \<le> e")
    case True
    note f = block_log_facts[OF True e W]
    define k where "k = block_log W b e"
    define b' where "b' = b + push_bit k 1"
    have ub': "unat b' = unat b + 2 ^ k" unfolding b'_def k_def by (rule f(4))
    define P where "P c = (\<exists>x. x \<in> ?ids c \<and> unat x < unat b')" for c
    have sub: "unat x < unat b'" if c: "c \<in> set cs" and Pc: "P c" and x: "x \<in> ?ids c" for c x
    proof -
      from cidr c have "cidr_block (nat W) c" by blast
      from cidr_block_ids[OF this n]
      obtain j where j: "j \<le> nat W" "fst c AND mask j = 0" "fst c \<le> mask (nat W)"
        and ids: "\<And>x. (x \<in> ?ids c) = (unat (fst c) \<le> unat x \<and> unat x < unat (fst c) + 2 ^ j)"
        by blast
      have jd: "2 ^ j dvd unat (fst c)" using j(2) by (simp add: aligned_dvd)
      have kd: "2 ^ k dvd unat b" using f(2) by (simp add: aligned_dvd k_def)
      have incov: "unat b \<le> unat y \<and> unat y \<le> unat e" if "y \<in> ?ids c" for y
        using cover[of y] that c by blast
      have "fst c \<in> ?ids c" by (simp add: ids)
      then have lo: "unat b \<le> unat (fst c)" using incov by blast
      have c30: "unat (fst c) < 2 ^ 30"
        using j(3) pow2_le_30[OF n] by (simp add: le_mask_unat[OF n])
      have "j \<le> 30" using j(1) n by simp
      then have "unat (fst c) + 2 ^ j - 1 < 2 ^ 32"
        using c30 pow2_le_30[of j] by simp
      then have "unat (of_nat (unat (fst c) + 2 ^ j - 1) :: u32) = unat (fst c) + 2 ^ j - 1"
        by (rule word_with_unat)
      moreover have "0 < (2::nat) ^ j" by simp
      ultimately have "(of_nat (unat (fst c) + 2 ^ j - 1) :: u32) \<in> ?ids c"
        by (simp only: ids) arith
      then have "unat (of_nat (unat (fst c) + 2 ^ j - 1) :: u32) \<le> unat e"
        using incov by blast
      then have hi: "unat (fst c) + 2 ^ j \<le> unat e + 1"
        using \<open>unat (of_nat (unat (fst c) + 2 ^ j - 1) :: u32) = unat (fst c) + 2 ^ j - 1\<close>
        by simp
      from Pc obtain z where z: "z \<in> ?ids c" "unat z < unat b'" unfolding P_def by blast
      have zc: "unat (fst c) \<le> unat z" "unat z < unat (fst c) + 2 ^ j"
        using z(1) by (simp_all add: ids)
      have zb: "unat b \<le> unat z" "unat z < unat b + 2 ^ k"
        using incov[OF z(1)] z(2) by (simp_all add: ub')
      have "j \<le> k"
      proof (rule ccontr)
        assume "\<not> j \<le> k"
        then have "k \<le> j" by simp
        from aligned_blocks_nested[OF kd jd this zb zc]
        have "unat (fst c) \<le> unat b" by simp
        with lo have eq: "unat (fst c) = unat b" by simp
        then have "fst c = b" by (simp add: word_unat_eq_iff)
        with j(2) hi eq have "b AND mask j = 0" "unat b + 2 ^ j \<le> unat e + 1" by simp_all
        from f(6)[OF j(1) this] have "j \<le> k" by (simp add: k_def)
        with \<open>\<not> j \<le> k\<close> show False by simp
      qed
      from aligned_blocks_nested[OF jd kd this zc zb]
      have "unat (fst c) + 2 ^ j \<le> unat b + 2 ^ k" by simp
      moreover have "unat x < unat (fst c) + 2 ^ j" using x by (simp add: ids)
      ultimately show ?thesis by (simp add: ub')
    qed
    let ?cs1 = "filter P cs" and ?cs2 = "filter (\<lambda>c. \<not> P c) cs"
    have "unat b \<le> unat b \<and> unat b \<le> unat e"
      using True by (simp add: word_le_nat_alt)
    then have "b \<in> (\<Union>c\<in>set cs. ?ids c)"
      by (simp only: cover)
    then obtain c0 where c0: "c0 \<in> set cs" "b \<in> ?ids c0" by blast
    have "unat b < unat b'" by (simp add: ub')
    with c0 have "P c0" unfolding P_def by blast
    with c0(1) have "c0 \<in> set ?cs1" by simp
    then have l1: "1 \<le> length ?cs1" by (cases ?cs1) simp_all
    have cover2: "(x \<in> (\<Union>c\<in>set ?cs2. ?ids c)) = (unat b' \<le> unat x \<and> unat x \<le> unat e)" for x
    proof
      assume "x \<in> (\<Union>c\<in>set ?cs2. ?ids c)"
      then obtain c where c: "c \<in> set cs" "\<not> P c" "x \<in> ?ids c" by auto
      from c(1,3) have "unat b \<le> unat x \<and> unat x \<le> unat e" using cover[of x] by blast
      moreover from c(2,3) have "\<not> unat x < unat b'" unfolding P_def by blast
      ultimately show "unat b' \<le> unat x \<and> unat x \<le> unat e" by simp
    next
      assume a: "unat b' \<le> unat x \<and> unat x \<le> unat e"
      then have "unat b \<le> unat x \<and> unat x \<le> unat e" by (simp add: ub')
      then have "x \<in> (\<Union>c\<in>set cs. ?ids c)" by (simp only: cover)
      then obtain c where c: "c \<in> set cs" "x \<in> ?ids c" by blast
      have "\<not> P c"
      proof
        assume "P c"
        from sub[OF c(1) this c(2)] a show False by simp
      qed
      with c have "c \<in> set ?cs2" by simp
      with c(2) show "x \<in> (\<Union>c\<in>set ?cs2. ?ids c)" by blast
    qed
    have cidr2: "\<forall>c\<in>set ?cs2. cidr_block (nat W) c" using cidr by simp
    have "length (range_blocks W b' e) \<le> length ?cs2"
      unfolding b'_def k_def block_log_def
      using True e W
      by (intro 1(1)[OF _ refl refl W e cidr2])
        (simp_all only: cover2[unfolded b'_def k_def block_log_def] simp_thms)
    moreover have "length cs = length ?cs1 + length ?cs2"
      by (simp only: sum_length_filter_compl)
    ultimately show ?thesis
      unfolding range_blocks_Cons[OF True e W] using l1
      by (simp add: b'_def k_def)
  next
    case False
    then show ?thesis by (simp add: range_blocks_Nil)
  qed
qed

subsection \<open>The loops of \<^verbatim>\<open>add_std_range\<close> and \<^verbatim>\<open>add_ext_range\<close> feed these blocks\<close>

lemma max_std_id_mask: "max_std_id = mask (nat 11)"
  by (simp add: max_std_id_def mask_eq_exp_minus_1)

lemma max_ext_id_mask: "max_ext_id = mask (nat 29)"
  by (simp add: max_ext_id_def mask_eq_exp_minus_1)

lemma bxcan_std_range_loop_feed:
  "e \<le> max_std_id \<Longrightarrow>
   bxcan_std_range_loop cfg s b e = bxcan_feed_std cfg s (std_blocks b e)"
  unfolding std_blocks_def
proof (induction "11::int" b e arbitrary: s rule: range_blocks.induct)
  case (1 b e)
  have e: "e \<le> mask (nat 11)" using 1(2) by (simp only: max_std_id_mask)
  show ?case
  proof (cases "b \<le> e")
    case True
    let ?k = "block_log 11 b e"
    let ?c = "(b, push_bit ?k (NOT 0) AND mask (nat 11) :: u32)"
    let ?b' = "b + push_bit ?k (1::u32)"
    let ?r = "if snd ?c = max_std_id then bxcan_add_std_list cfg s (fst ?c)
              else bxcan_add_std_mask cfg s (fst ?c) (snd ?c)"
    have IH: "bxcan_std_range_loop cfg s' ?b' e = bxcan_feed_std cfg s' (range_blocks 11 ?b' e)"
      for s'
      using 1(1)[OF _ refl refl 1(2)] True e
      by (simp add: block_log_def)
    have L: "bxcan_std_range_loop cfg s b e =
               (if fst ?r \<noteq> CANFILTER_SUCCESS then ?r
                else bxcan_std_range_loop cfg (snd ?r) ?b' e)"
      by (subst bxcan_std_range_loop.simps)
        (simp only: True if_True Let_def std_largest_prefix_def block_log_def max_std_id_mask
          fst_conv snd_conv)
    have R: "range_blocks 11 b e = ?c # range_blocks 11 ?b' e"
      by (rule range_blocks_Cons[OF True e]) simp_all
    show ?thesis
      unfolding R L by (simp only: bxcan_feed_std.simps IH)
  next
    case False
    then have "bxcan_std_range_loop cfg s b e = (CANFILTER_SUCCESS, s)"
      by (subst bxcan_std_range_loop.simps) (simp only: if_False)
    then show ?thesis by (simp add: range_blocks_Nil[OF False])
  qed
qed

lemma bxcan_ext_range_loop_feed:
  "e \<le> max_ext_id \<Longrightarrow>
   bxcan_ext_range_loop cfg s b e = bxcan_feed_ext cfg s (ext_blocks b e)"
  unfolding ext_blocks_def
proof (induction "29::int" b e arbitrary: s rule: range_blocks.induct)
  case (1 b e)
  have e: "e \<le> mask (nat 29)" using 1(2) by (simp only: max_ext_id_mask)
  show ?case
  proof (cases "b \<le> e")
    case True
    let ?k = "block_log 29 b e"
    let ?c = "(b, push_bit ?k (NOT 0) AND mask (nat 29) :: u32)"
    let ?b' = "b + push_bit ?k (1::u32)"
    let ?r = "if snd ?c = max_ext_id then bxcan_add_ext_list cfg s (fst ?c)
              else bxcan_add_ext_mask cfg s (fst ?c) (snd ?c)"
    have IH: "bxcan_ext_range_loop cfg s' ?b' e = bxcan_feed_ext cfg s' (range_blocks 29 ?b' e)"
      for s'
      using 1(1)[OF _ refl refl 1(2)] True e
      by (simp add: block_log_def)
    have L: "bxcan_ext_range_loop cfg s b e =
               (if fst ?r \<noteq> CANFILTER_SUCCESS then ?r
                else bxcan_ext_range_loop cfg (snd ?r) ?b' e)"
      by (subst bxcan_ext_range_loop.simps)
        (simp only: True if_True Let_def ext_largest_prefix_def block_log_def max_ext_id_mask
          fst_conv snd_conv)
    have R: "range_blocks 29 b e = ?c # range_blocks 29 ?b' e"
      by (rule range_blocks_Cons[OF True e]) simp_all
    show ?thesis
      unfolding R L by (simp only: bxcan_feed_ext.simps IH)
  next
    case False
    then have "bxcan_ext_range_loop cfg s b e = (CANFILTER_SUCCESS, s)"
      by (subst bxcan_ext_range_loop.simps) (simp only: if_False)
    then show ?thesis by (simp add: range_blocks_Nil[OF False])
  qed
qed

lemma range_blocks_union:
  assumes "0 \<le> W" "W \<le> 30" "e \<le> mask (nat W)"
  shows "(\<Union>c\<in>set (range_blocks W b e). block_ids (mask (nat W)) c) = {b..e}"
proof (rule set_eqI)
  fix x
  show "(x \<in> (\<Union>c\<in>set (range_blocks W b e). block_ids (mask (nat W)) c)) = (x \<in> {b..e})"
    by (simp only: range_blocks_ids[OF assms] atLeastAtMost_iff word_le_nat_alt)
qed

lemma range_blocks_cover:
  assumes "0 \<le> W" "W \<le> 30" "e \<le> mask (nat W)"
  shows "cidr_cover (nat W) b e (range_blocks W b e)"
  unfolding cidr_cover_def
  using range_blocks_cidr[OF assms] range_blocks_disjoint[OF assms] range_blocks_union[OF assms]
  by blast

lemma range_blocks_least:
  assumes "0 \<le> W" "W \<le> 30" "e \<le> mask (nat W)" "cidr_cover (nat W) b e cs"
  shows "length (range_blocks W b e) \<le> length cs"
proof -
  from assms(4) have c: "\<forall>c\<in>set cs. cidr_block (nat W) c"
    and u: "(\<Union>c\<in>set cs. block_ids (mask (nat W)) c) = {b..e}"
    unfolding cidr_cover_def by blast+
  have "(x \<in> (\<Union>c\<in>set cs. block_ids (mask (nat W)) c))
          = (unat b \<le> unat x \<and> unat x \<le> unat e)" for x
    by (simp only: u atLeastAtMost_iff word_le_nat_alt)
  with assms(1,2,3) c show ?thesis by (rule range_blocks_minimal)
qed

lemma single_id_block:
  assumes "n \<le> 30" "(b::u32) \<le> mask n"
  shows "block_ids (mask n) (b, mask n) = {b}"
proof -
  have "unat b < 2 ^ n" using assms by (simp add: le_mask_unat)
  then have "int (unat b) < int (2 ^ n)" by (simp only: of_nat_less_iff)
  then have "uint b < 2 ^ n" by simp
  then have "b AND mask n = b" by (simp add: mask_eq_iff)
  then have "(b OR NOT (mask n)) AND mask n = b"
    by (simp add: bit.conj_disj_distrib2)
  then show ?thesis by (simp add: block_ids_def)
qed

lemma bxcan_add_std_range_feed:
  assumes "a \<le> max_std_id" "b \<le> max_std_id"
  shows "bxcan_add_std_range cfg s a b = bxcan_feed_std cfg s (std_blocks (min a b) (max a b))"
proof -
  have m: "max a b \<le> max_std_id" using assms by (simp add: max_def)
  have "bxcan_add_std_range cfg s a b = bxcan_std_range_loop cfg s (min a b) (max a b)"
    using assms by (auto simp: bxcan_add_std_range_def min_def max_def not_less)
  then show ?thesis by (simp only: bxcan_std_range_loop_feed[OF m])
qed

lemma bxcan_add_ext_range_feed:
  assumes "a \<le> max_ext_id" "b \<le> max_ext_id"
  shows "bxcan_add_ext_range cfg s a b = bxcan_feed_ext cfg s (ext_blocks (min a b) (max a b))"
proof -
  have m: "max a b \<le> max_ext_id" using assms by (simp add: max_def)
  have "bxcan_add_ext_range cfg s a b = bxcan_ext_range_loop cfg s (min a b) (max a b)"
    using assms by (auto simp: bxcan_add_ext_range_def min_def max_def not_less)
  then show ?thesis by (simp only: bxcan_ext_range_loop_feed[OF m])
qed

lemma std_blocks_facts:
  assumes "a \<le> max_std_id" "b \<le> max_std_id"
  shows "cidr_cover 11 (min a b) (max a b) (std_blocks (min a b) (max a b))"
    and "cidr_cover 11 (min a b) (max a b) cs
           \<Longrightarrow> length (std_blocks (min a b) (max a b)) \<le> length cs"
proof -
  have "max a b \<le> max_std_id" using assms by (simp add: max_def)
  then have m: "max a b \<le> mask (nat 11)" by (simp only: max_std_id_mask)
  show "cidr_cover 11 (min a b) (max a b) (std_blocks (min a b) (max a b))"
    using range_blocks_cover[OF _ _ m, of "min a b"] by (simp add: std_blocks_def)
  show "length (std_blocks (min a b) (max a b)) \<le> length cs"
    if "cidr_cover 11 (min a b) (max a b) cs"
    using range_blocks_least[OF _ _ m, of "min a b" cs] that by (simp add: std_blocks_def)
qed

lemma ext_blocks_facts:
  assumes "a \<le> max_ext_id" "b \<le> max_ext_id"
  shows "cidr_cover 29 (min a b) (max a b) (ext_blocks (min a b) (max a b))"
    and "cidr_cover 29 (min a b) (max a b) cs
           \<Longrightarrow> length (ext_blocks (min a b) (max a b)) \<le> length cs"
proof -
  have "max a b \<le> max_ext_id" using assms by (simp add: max_def)
  then have m: "max a b \<le> mask (nat 29)" by (simp only: max_ext_id_mask)
  show "cidr_cover 29 (min a b) (max a b) (ext_blocks (min a b) (max a b))"
    using range_blocks_cover[OF _ _ m, of "min a b"] by (simp add: ext_blocks_def)
  show "length (ext_blocks (min a b) (max a b)) \<le> length cs"
    if "cidr_cover 29 (min a b) (max a b) cs"
    using range_blocks_least[OF _ _ m, of "min a b" cs] that by (simp add: ext_blocks_def)
qed


lemmas blocks_eval =
  std_blocks_def ext_blocks_def range_blocks.simps largest_prefix_def
  largest_prefix_loop1.simps largest_prefix_loop2.simps mask_eq_exp_minus_1 Let_def

lemma std_blocks_example: "std_blocks 0x100 0x2FF = [(0x100, 0x700), (0x200, 0x700)]"
  by (simp add: blocks_eval)

lemma ext_blocks_example: "ext_blocks 0x100 0x2FF = [(0x100, 0x1FFFFF00), (0x200, 0x1FFFFF00)]"
  by (simp add: blocks_eval)

lemma std_blocks_example2: "std_blocks 1 6 = [(1, 0x7FF), (2, 0x7FE), (4, 0x7FE), (6, 0x7FF)]"
  by (simp add: blocks_eval)


lemma cidr_blockI:
  "k \<le> W \<Longrightarrow> snd c = push_bit k (NOT 0) AND mask W \<Longrightarrow> fst c \<le> mask W
   \<Longrightarrow> fst c AND mask k = 0 \<Longrightarrow> cidr_block W c"
  unfolding cidr_block_def by (intro bexI[of _ k]) simp_all

lemma adjacent_word_intervals:
  "(a::u32) \<le> b \<Longrightarrow> b < c \<Longrightarrow> unat c = unat b + 1 \<Longrightarrow> c \<le> d
   \<Longrightarrow> {a..b} \<union> {c..d} = {a..d}"
  by (auto simp: word_le_nat_alt word_less_nat_alt)

lemma three_block_cover_std:
  "cidr_cover 11 0x100 0x2FF [(0x100, 0x700), (0x200, 0x780), (0x280, 0x780)]"
proof -
  have c1: "cidr_block 11 (0x100, 0x700)"
    by (rule cidr_blockI[of 8]) (simp_all add: mask_eq_exp_minus_1)
  have c2: "cidr_block 11 (0x200, 0x780)"
    by (rule cidr_blockI[of 7]) (simp_all add: mask_eq_exp_minus_1)
  have c3: "cidr_block 11 (0x280, 0x780)"
    by (rule cidr_blockI[of 7]) (simp_all add: mask_eq_exp_minus_1)
  have i: "block_ids (mask 11) (0x100, 0x700) = {0x100..0x1FF}"
    "block_ids (mask 11) (0x200, 0x780) = {0x200..0x27F}"
    "block_ids (mask 11) (0x280, 0x780) = {0x280..0x2FF}"
    by (simp_all add: block_ids_def mask_eq_exp_minus_1)
  have u: "{0x100..0x1FF} \<union> ({0x200..0x27F} \<union> {0x280..0x2FF}) = {0x100..(0x2FF::u32)}"
    by (simp add: adjacent_word_intervals)
  show ?thesis
    unfolding cidr_cover_def using c1 c2 c3 by (simp add: i u)
qed

lemma three_block_cover_ext:
  "cidr_cover 29 0x100 0x2FF [(0x100, 0x1FFFFF00), (0x200, 0x1FFFFF80), (0x280, 0x1FFFFF80)]"
proof -
  have c1: "cidr_block 29 (0x100, 0x1FFFFF00)"
    by (rule cidr_blockI[of 8]) (simp_all add: mask_eq_exp_minus_1)
  have c2: "cidr_block 29 (0x200, 0x1FFFFF80)"
    by (rule cidr_blockI[of 7]) (simp_all add: mask_eq_exp_minus_1)
  have c3: "cidr_block 29 (0x280, 0x1FFFFF80)"
    by (rule cidr_blockI[of 7]) (simp_all add: mask_eq_exp_minus_1)
  have i: "block_ids (mask 29) (0x100, 0x1FFFFF00) = {0x100..0x1FF}"
    "block_ids (mask 29) (0x200, 0x1FFFFF80) = {0x200..0x27F}"
    "block_ids (mask 29) (0x280, 0x1FFFFF80) = {0x280..0x2FF}"
    by (simp_all add: block_ids_def mask_eq_exp_minus_1)
  have u: "{0x100..0x1FF} \<union> ({0x200..0x27F} \<union> {0x280..0x2FF}) = {0x100..(0x2FF::u32)}"
    by (simp add: adjacent_word_intervals)
  show ?thesis
    unfolding cidr_cover_def using c1 c2 c3 by (simp add: i u)
qed


subsection \<open>Minimal number of blocks\<close>

text \<open>
  C2. For every range in the 11-bit (29-bit) space, the blocks that the greedy
  largest-aligned-prefix decomposition of \<^verbatim>\<open>add_std_range\<close> (\<^verbatim>\<open>add_ext_range\<close>) produces are
  a cover of the range by disjoint, address-aligned, power-of-two-sized blocks written as
  base and mask, and no such cover of the range has fewer blocks.
\<close>

theorem greedy_decomposition_minimal:
  "(a \<le> max_std_id \<and> b \<le> max_std_id \<longrightarrow>
      bxcan_add_std_range cfg s a b = bxcan_feed_std cfg s (std_blocks (min a b) (max a b)) \<and>
      cidr_cover 11 (min a b) (max a b) (std_blocks (min a b) (max a b)) \<and>
      (\<forall>cs. cidr_cover 11 (min a b) (max a b) cs
            \<longrightarrow> length (std_blocks (min a b) (max a b)) \<le> length cs)) \<and>
   (a \<le> max_ext_id \<and> b \<le> max_ext_id \<longrightarrow>
      bxcan_add_ext_range cfg s a b = bxcan_feed_ext cfg s (ext_blocks (min a b) (max a b)) \<and>
      cidr_cover 29 (min a b) (max a b) (ext_blocks (min a b) (max a b)) \<and>
      (\<forall>cs. cidr_cover 29 (min a b) (max a b) cs
            \<longrightarrow> length (ext_blocks (min a b) (max a b)) \<le> length cs))"
  using bxcan_add_std_range_feed[of a b cfg s] bxcan_add_ext_range_feed[of a b cfg s]
    std_blocks_facts[of a b] ext_blocks_facts[of a b]
  by blast

theorem greedy_decomposition_minimal_witness:
  "(0x2FF::u32) \<le> max_std_id \<and> (0x100::u32) \<le> max_std_id \<and>
   (0x2FF::u32) \<le> max_ext_id \<and> (0x100::u32) \<le> max_ext_id \<and>
   cidr_cover 11 0x100 0x2FF [(0x100, 0x700), (0x200, 0x780), (0x280, 0x780)] \<and>
   cidr_cover 11 0x100 0x2FF (std_blocks 0x100 0x2FF) \<and>
   length (std_blocks 0x100 0x2FF) \<le> length ([(0x100, 0x700), (0x200, 0x780), (0x280, 0x780)] :: (u32 \<times> u32) list) \<and>
   std_blocks 0x100 0x2FF = [(0x100, 0x700), (0x200, 0x700)] \<and>
   cidr_cover 29 0x100 0x2FF [(0x100, 0x1FFFFF00), (0x200, 0x1FFFFF80), (0x280, 0x1FFFFF80)] \<and>
   cidr_cover 29 0x100 0x2FF (ext_blocks 0x100 0x2FF) \<and>
   length (ext_blocks 0x100 0x2FF)
     \<le> length ([(0x100, 0x1FFFFF00), (0x200, 0x1FFFFF80), (0x280, 0x1FFFFF80)] :: (u32 \<times> u32) list) \<and>
   ext_blocks 0x100 0x2FF = [(0x100, 0x1FFFFF00), (0x200, 0x1FFFFF00)]"
proof -
  have h: "(0x2FF::u32) \<le> max_std_id \<and> (0x100::u32) \<le> max_std_id"
    "(0x2FF::u32) \<le> max_ext_id \<and> (0x100::u32) \<le> max_ext_id"
    by (simp_all add: max_std_id_def max_ext_id_def)
  have m: "min (0x2FF::u32) 0x100 = 0x100" "max (0x2FF::u32) 0x100 = 0x2FF" by simp_all
  note g = greedy_decomposition_minimal[of "0x2FF" "0x100" bxcan_f0 "bxcan_new bxcan_f0", unfolded m]
  note gs = g[THEN conjunct1, THEN mp, OF h(1), THEN conjunct2]
  note ge = g[THEN conjunct2, THEN mp, OF h(2), THEN conjunct2]
  have s: "cidr_cover 11 0x100 0x2FF (std_blocks 0x100 0x2FF)"
    and sl: "\<forall>cs. cidr_cover 11 0x100 0x2FF cs \<longrightarrow> length (std_blocks 0x100 0x2FF) \<le> length cs"
    by (rule gs[THEN conjunct1], rule gs[THEN conjunct2])
  have e: "cidr_cover 29 0x100 0x2FF (ext_blocks 0x100 0x2FF)"
    and el: "\<forall>cs. cidr_cover 29 0x100 0x2FF cs \<longrightarrow> length (ext_blocks 0x100 0x2FF) \<le> length cs"
    by (rule ge[THEN conjunct1], rule ge[THEN conjunct2])
  have sl3: "length (std_blocks 0x100 0x2FF)
      \<le> length ([(0x100, 0x700), (0x200, 0x780), (0x280, 0x780)] :: (u32 \<times> u32) list)"
    by (rule sl[THEN spec, THEN mp, OF three_block_cover_std])
  have el3: "length (ext_blocks 0x100 0x2FF)
      \<le> length ([(0x100, 0x1FFFFF00), (0x200, 0x1FFFFF80), (0x280, 0x1FFFFF80)] :: (u32 \<times> u32) list)"
    by (rule el[THEN spec, THEN mp, OF three_block_cover_ext])
  show ?thesis
    by (intro conjI h[THEN conjunct1] h[THEN conjunct2] three_block_cover_std
        three_block_cover_ext s e sl3 el3 std_blocks_example ext_blocks_example)
qed

section \<open>bxCAN state invariants\<close>

subsection \<open>The image invariant\<close>

lemma u8_bound: "unat (m::u8) < 256"
  using unsigned_less[of m, where 'a=nat] by simp

lemma unat_ucast_u8: "unat (ucast (m::u8) :: u32) = unat m"
  by (simp add: unsigned_ucast_eq take_bit_nat_eq_self u8_bound[THEN less_trans])

lemma bank_full_iff: "((ucast (m::u8) :: u32) \<le> x) = (unat m \<le> unat x)"
  by (simp add: word_le_nat_alt unat_ucast_u8)

lemma bank_le_iff: "((x::u32) \<le> ucast (m::u8)) = (unat x \<le> unat m)"
  by (simp add: word_le_nat_alt unat_ucast_u8)

lemma bank_suc: "unat (x::u32) < unat (m::u8) \<Longrightarrow> unat (x + 1) = Suc (unat x)"
proof -
  assume "unat x < unat m"
  with u8_bound[of m] have "Suc (unat x) < 4294967296" by simp
  then show ?thesis by (simp add: unat_word_ariths)
qed

lemma write_bank_image_ok:
  assumes "bxcan_image_ok cfg s" "unat (bank s) < unat (max_banks cfg)"
  shows "bxcan_image_ok cfg (write_bank s v1 v2 a b)"
  using assms bank_suc[OF assms(2)]
  by (auto simp: bxcan_image_ok_def bxcan_image_inv_def write_bank_def Let_def bank_le_iff
      bit_simps)

lemma write_bank_acc:
  "std_list (write_bank s v1 v2 a b) = std_list s"
  "std_list_count (write_bank s v1 v2 a b) = std_list_count s"
  "std_mask (write_bank s v1 v2 a b) = std_mask s"
  "std_mask_count (write_bank s v1 v2 a b) = std_mask_count s"
  "ext_list (write_bank s v1 v2 a b) = ext_list s"
  "ext_list_count (write_bank s v1 v2 a b) = ext_list_count s"
  "bank (write_bank s v1 v2 a b) = bank s + 1"
  by (simp_all add: write_bank_def Let_def)

lemma emit_image_ok:
  assumes "bxcan_image_ok cfg s"
  shows "bxcan_image_ok cfg (snd (bxcan_emit_std_list cfg s i1 i2 i3 i4))"
    and "bxcan_image_ok cfg (snd (bxcan_emit_std_mask cfg s i1 m1 i2 m2))"
    and "bxcan_image_ok cfg (snd (bxcan_emit_ext_list cfg s i1 i2))"
    and "bxcan_image_ok cfg (snd (bxcan_emit_ext_mask cfg s i1 m1))"
  using assms
  by (simp_all add: bxcan_emit_std_list_def bxcan_emit_std_mask_def bxcan_emit_ext_list_def
      bxcan_emit_ext_mask_def bank_full_iff write_bank_image_ok not_le)

lemma image_ok_acc_update:
  "bxcan_image_ok cfg (s\<lparr>std_list := l\<rparr>) = bxcan_image_ok cfg s"
  "bxcan_image_ok cfg (s\<lparr>std_list_count := c\<rparr>) = bxcan_image_ok cfg s"
  "bxcan_image_ok cfg (s\<lparr>std_mask := ml\<rparr>) = bxcan_image_ok cfg s"
  "bxcan_image_ok cfg (s\<lparr>std_mask_count := c\<rparr>) = bxcan_image_ok cfg s"
  "bxcan_image_ok cfg (s\<lparr>ext_list := l\<rparr>) = bxcan_image_ok cfg s"
  "bxcan_image_ok cfg (s\<lparr>ext_list_count := c\<rparr>) = bxcan_image_ok cfg s"
  by (simp_all add: bxcan_image_ok_def bxcan_image_inv_def)

lemma add_image_ok:
  assumes "bxcan_image_ok cfg s"
  shows "bxcan_image_ok cfg (snd (bxcan_add_std_list cfg s i))"
    and "bxcan_image_ok cfg (snd (bxcan_add_std_mask cfg s i m))"
    and "bxcan_image_ok cfg (snd (bxcan_add_ext_list cfg s i))"
    and "bxcan_image_ok cfg (snd (bxcan_add_ext_mask cfg s i m))"
  using assms
  by (simp_all add: bxcan_add_std_list_def bxcan_add_std_mask_def bxcan_add_ext_list_def
      bxcan_add_ext_mask_def Let_def image_ok_acc_update emit_image_ok)

lemma feed_std_image_ok:
  "bxcan_image_ok cfg s \<Longrightarrow> bxcan_image_ok cfg (snd (bxcan_feed_std cfg s bs))"
  by (induction bs arbitrary: s) (simp_all add: add_image_ok)

lemma feed_ext_image_ok:
  "bxcan_image_ok cfg s \<Longrightarrow> bxcan_image_ok cfg (snd (bxcan_feed_ext cfg s bs))"
  by (induction bs arbitrary: s) (simp_all add: add_image_ok)
lemma add_range_image_ok:
  assumes "bxcan_image_ok cfg s"
  shows "bxcan_image_ok cfg (snd (bxcan_add_std_range cfg s a b))"
    and "bxcan_image_ok cfg (snd (bxcan_add_ext_range cfg s a b))"
proof -
  show "bxcan_image_ok cfg (snd (bxcan_add_std_range cfg s a b))"
  proof (cases "a \<le> max_std_id \<and> b \<le> max_std_id")
    case True
    then show ?thesis
      using assms by (simp add: bxcan_add_std_range_feed feed_std_image_ok)
  next
    case False
    then show ?thesis using assms by (auto simp: bxcan_add_std_range_def)
  qed
  show "bxcan_image_ok cfg (snd (bxcan_add_ext_range cfg s a b))"
  proof (cases "a \<le> max_ext_id \<and> b \<le> max_ext_id")
    case True
    then show ?thesis
      using assms by (simp add: bxcan_add_ext_range_feed feed_ext_image_ok)
  next
    case False
    then show ?thesis using assms by (auto simp: bxcan_add_ext_range_def)
  qed
qed

lemma end_image_ok:
  "bxcan_image_ok cfg s \<Longrightarrow> bxcan_image_ok cfg (snd (bxcan_end cfg s))"
  by (simp add: bxcan_end_def Let_def emit_image_ok)

lemma do_image_ok:
  "bxcan_image_ok cfg s \<Longrightarrow> bxcan_image_ok cfg (snd (bxcan_do cfg s c))"
  by (cases c)
    (simp_all add: bxcan_add_std_id_def bxcan_add_ext_id_def add_range_image_ok end_image_ok)

lemma run_image_ok:
  "bxcan_image_ok cfg s \<Longrightarrow> bxcan_image_ok cfg (bxcan_run cfg s cs)"
  by (induction cs arbitrary: s) (simp_all add: do_image_ok)

lemma begin_image_ok: "bxcan_image_ok cfg (snd (bxcan_begin cfg s))"
  by (simp add: bxcan_begin_def bxcan_image_ok_def bxcan_image_inv_def bxcan_hw_t_def)

subsection \<open>States reachable from \<^verbatim>\<open>begin()\<close>\<close>

text \<open>
  C7. In every state of a bxCAN builder reached by \<^verbatim>\<open>begin()\<close> followed by any sequence
  of \<^verbatim>\<open>add_std_id\<close>, \<^verbatim>\<open>add_ext_id\<close>, \<^verbatim>\<open>add_std_range\<close>, \<^verbatim>\<open>add_ext_range\<close> and \<^verbatim>\<open>end\<close>
  calls, \<^verbatim>\<open>bank <= B\<close>, and for every index \<^verbatim>\<open>i >= bank\<close>: \<^verbatim>\<open>FR1[i] == 0\<close>, \<^verbatim>\<open>FR2[i] == 0\<close>
  and bit \<open>i\<close> of \<^verbatim>\<open>FA1R\<close> is 0. This holds for every number of banks \<open>B\<close>, so for 14 and
  for 28, and whatever the builder held before \<^verbatim>\<open>begin()\<close>.
\<close>

theorem bxcan_reachable_image_inv:
  "bxcan_image_inv cfg (bxcan_run cfg (snd (bxcan_begin cfg s0)) calls)"
  using run_image_ok[OF begin_image_ok, of cfg s0 calls]
  by (simp add: bxcan_image_ok_def)

lemmas bxcan_eval =
  bxcan_add_std_id_def bxcan_add_ext_id_def bxcan_add_std_range_def bxcan_add_ext_range_def
  bxcan_std_range_loop.simps bxcan_ext_range_loop.simps std_largest_prefix_def
  ext_largest_prefix_def largest_prefix_def largest_prefix_loop1.simps
  largest_prefix_loop2.simps
  bxcan_add_std_list_def bxcan_add_std_mask_def bxcan_add_ext_list_def bxcan_add_ext_mask_def
  bxcan_emit_std_list_def bxcan_emit_std_mask_def bxcan_emit_ext_list_def
  bxcan_emit_ext_mask_def write_bank_def bxcan_begin_def bxcan_end_def bxcan_new_def
  bxcan_hw_t_def bxcan_f0_def bxcan_f4_def CANFILTER_DEV_BXCAN_F0_def
  CANFILTER_DEV_BXCAN_F4_def max_std_id_def max_ext_id_def mask_eq_exp_minus_1 Let_def

lemma bxcan_one_id_state:
  "bank bxcan_one_id = 1"
  "fr1 (hw_config bxcan_one_id) ! 0 = 0x20002000"
  "fr2 (hw_config bxcan_one_id) ! 0 = 0x20002000"
  "fa1r (hw_config bxcan_one_id) = 1"
  by (simp_all add: bxcan_one_id_def bxcan_eval)

theorem bxcan_reachable_image_inv_witness:
  "bank bxcan_one_id = 1 \<and> unat (bank bxcan_one_id) \<le> 5 \<and> 5 < unat (max_banks bxcan_f0) \<and>
   fr1 (hw_config bxcan_one_id) ! 0 = 0x20002000 \<and>
   fr1 (hw_config bxcan_one_id) ! 5 = 0 \<and> fr2 (hw_config bxcan_one_id) ! 5 = 0 \<and>
   \<not> bit (fa1r (hw_config bxcan_one_id)) 5"
proof -
  have b: "unat (bank bxcan_one_id) \<le> 5" "5 < unat (max_banks bxcan_f0)" "(5::nat) < 32"
    by (simp_all add: bxcan_one_id_state bxcan_f0_def)
  have "bxcan_image_inv bxcan_f0 bxcan_one_id"
    unfolding bxcan_one_id_def
    by (rule bxcan_reachable_image_inv)
  then have "fr1 (hw_config bxcan_one_id) ! 5 = 0 \<and> fr2 (hw_config bxcan_one_id) ! 5 = 0"
    "\<not> bit (fa1r (hw_config bxcan_one_id)) 5"
    unfolding bxcan_image_inv_def using b by blast+
  then show ?thesis using b by (simp add: bxcan_one_id_state)
qed

subsection \<open>The accumulator invariant\<close>

lemma u32_le_3: "(c::u32) \<le> 3 \<Longrightarrow> c = 0 \<or> c = 1 \<or> c = 2 \<or> c = 3"
proof -
  assume "c \<le> 3"
  then have "unat c \<le> 3" by (simp add: word_le_nat_alt)
  then have "unat c = 0 \<or> unat c = 1 \<or> unat c = 2 \<or> unat c = 3" by arith
  then show ?thesis by (simp add: word_unat_eq_iff)
qed

lemma u32_le_1: "(c::u32) \<le> 1 \<Longrightarrow> c = 0 \<or> c = 1"
proof -
  assume "c \<le> 1"
  then have "unat c \<le> 1" by (simp add: word_le_nat_alt)
  then have "unat c = 0 \<or> unat c = 1" by arith
  then show ?thesis by (simp add: word_unat_eq_iff)
qed

lemma length_4E: "length xs = 4 \<Longrightarrow> \<exists>x0 x1 x2 x3. xs = [x0, x1, x2, x3]"
  by (auto simp: length_Suc_conv numeral_eq_Suc)

lemma length_2E: "length xs = 2 \<Longrightarrow> \<exists>x0 x1. xs = [x0, x1]"
  by (auto simp: length_Suc_conv numeral_eq_Suc)

lemma emit_acc:
  "std_list (snd (bxcan_emit_std_list cfg s i1 i2 i3 i4)) = std_list s"
  "std_mask (snd (bxcan_emit_std_list cfg s i1 i2 i3 i4)) = std_mask s"
  "ext_list (snd (bxcan_emit_std_list cfg s i1 i2 i3 i4)) = ext_list s"
  "std_list_count (snd (bxcan_emit_std_list cfg s i1 i2 i3 i4)) = std_list_count s"
  "std_mask_count (snd (bxcan_emit_std_list cfg s i1 i2 i3 i4)) = std_mask_count s"
  "ext_list_count (snd (bxcan_emit_std_list cfg s i1 i2 i3 i4)) = ext_list_count s"
  "std_list (snd (bxcan_emit_std_mask cfg s i1 m1 i2 m2)) = std_list s"
  "std_mask (snd (bxcan_emit_std_mask cfg s i1 m1 i2 m2)) = std_mask s"
  "ext_list (snd (bxcan_emit_std_mask cfg s i1 m1 i2 m2)) = ext_list s"
  "std_list_count (snd (bxcan_emit_std_mask cfg s i1 m1 i2 m2)) = std_list_count s"
  "std_mask_count (snd (bxcan_emit_std_mask cfg s i1 m1 i2 m2)) = std_mask_count s"
  "ext_list_count (snd (bxcan_emit_std_mask cfg s i1 m1 i2 m2)) = ext_list_count s"
  "std_list (snd (bxcan_emit_ext_list cfg s i1 i2)) = std_list s"
  "std_mask (snd (bxcan_emit_ext_list cfg s i1 i2)) = std_mask s"
  "ext_list (snd (bxcan_emit_ext_list cfg s i1 i2)) = ext_list s"
  "std_list_count (snd (bxcan_emit_ext_list cfg s i1 i2)) = std_list_count s"
  "std_mask_count (snd (bxcan_emit_ext_list cfg s i1 i2)) = std_mask_count s"
  "ext_list_count (snd (bxcan_emit_ext_list cfg s i1 i2)) = ext_list_count s"
  "std_list (snd (bxcan_emit_ext_mask cfg s i1 m1)) = std_list s"
  "std_mask (snd (bxcan_emit_ext_mask cfg s i1 m1)) = std_mask s"
  "ext_list (snd (bxcan_emit_ext_mask cfg s i1 m1)) = ext_list s"
  "std_list_count (snd (bxcan_emit_ext_mask cfg s i1 m1)) = std_list_count s"
  "std_mask_count (snd (bxcan_emit_ext_mask cfg s i1 m1)) = std_mask_count s"
  "ext_list_count (snd (bxcan_emit_ext_mask cfg s i1 m1)) = ext_list_count s"
  by (simp_all add: bxcan_emit_std_list_def bxcan_emit_std_mask_def bxcan_emit_ext_list_def
      bxcan_emit_ext_mask_def write_bank_acc)

lemma emit_no_param:
  "i1 \<le> max_std_id \<Longrightarrow> i2 \<le> max_std_id \<Longrightarrow> i3 \<le> max_std_id \<Longrightarrow> i4 \<le> max_std_id \<Longrightarrow>
     fst (bxcan_emit_std_list cfg s i1 i2 i3 i4) = CANFILTER_SUCCESS \<or>
       fst (bxcan_emit_std_list cfg s i1 i2 i3 i4) = CANFILTER_ERROR_FULL"
  "i1 \<le> max_std_id \<Longrightarrow> m1 \<le> max_std_id \<Longrightarrow> i2 \<le> max_std_id \<Longrightarrow> m2 \<le> max_std_id \<Longrightarrow>
     fst (bxcan_emit_std_mask cfg s i1 m1 i2 m2) = CANFILTER_SUCCESS \<or>
       fst (bxcan_emit_std_mask cfg s i1 m1 i2 m2) = CANFILTER_ERROR_FULL"
  "e1 \<le> max_ext_id \<Longrightarrow> e2 \<le> max_ext_id \<Longrightarrow>
     fst (bxcan_emit_ext_list cfg s e1 e2) = CANFILTER_SUCCESS \<or>
       fst (bxcan_emit_ext_list cfg s e1 e2) = CANFILTER_ERROR_FULL"
  "e1 \<le> max_ext_id \<Longrightarrow> e2 \<le> max_ext_id \<Longrightarrow>
     fst (bxcan_emit_ext_mask cfg s e1 e2) = CANFILTER_SUCCESS \<or>
       fst (bxcan_emit_ext_mask cfg s e1 e2) = CANFILTER_ERROR_FULL"
  by (auto simp: bxcan_emit_std_list_def bxcan_emit_std_mask_def bxcan_emit_ext_list_def
      bxcan_emit_ext_mask_def dest: leD)

lemma add_std_list_acc_ok:
  assumes "bxcan_acc_ok s" "i \<le> max_std_id"
  shows "bxcan_acc_ok (snd (bxcan_add_std_list cfg s i))"
    and "fst (bxcan_add_std_list cfg s i) = CANFILTER_SUCCESS \<or>
       fst (bxcan_add_std_list cfg s i) = CANFILTER_ERROR_FULL"
proof -
  from assms(1) obtain x0 x1 x2 x3 where l: "std_list s = [x0, x1, x2, x3]"
    using length_4E[of "std_list s"] by (auto simp: bxcan_acc_ok_def bxcan_shape_def)
  from assms(1) have "std_list_count s \<le> 3" by (simp add: bxcan_acc_ok_def)
  then have c: "std_list_count s = 0 \<or> std_list_count s = 1 \<or> std_list_count s = 2
      \<or> std_list_count s = 3" by (rule u32_le_3)
  from c show "bxcan_acc_ok (snd (bxcan_add_std_list cfg s i))"
    using assms l
    by (elim disjE)
      (simp_all add: bxcan_add_std_list_def bxcan_acc_ok_def bxcan_shape_def Let_def emit_acc)
  from c show "fst (bxcan_add_std_list cfg s i) = CANFILTER_SUCCESS \<or>
       fst (bxcan_add_std_list cfg s i) = CANFILTER_ERROR_FULL"
    using assms l
    by (elim disjE)
      (simp_all add: bxcan_add_std_list_def bxcan_acc_ok_def bxcan_shape_def Let_def
        emit_no_param)
qed

lemma add_std_mask_acc_ok:
  assumes "bxcan_acc_ok s" "i \<le> max_std_id" "m \<le> max_std_id"
  shows "bxcan_acc_ok (snd (bxcan_add_std_mask cfg s i m))"
    and "fst (bxcan_add_std_mask cfg s i m) = CANFILTER_SUCCESS \<or>
       fst (bxcan_add_std_mask cfg s i m) = CANFILTER_ERROR_FULL"
proof -
  from assms(1) obtain p0 p1 where l: "std_mask s = [p0, p1]"
    using length_2E[of "std_mask s"] by (auto simp: bxcan_acc_ok_def bxcan_shape_def)
  from assms(1) have "std_mask_count s \<le> 1" by (simp add: bxcan_acc_ok_def)
  then have c: "std_mask_count s = 0 \<or> std_mask_count s = 1" by (rule u32_le_1)
  from c show "bxcan_acc_ok (snd (bxcan_add_std_mask cfg s i m))"
    using assms l
    by (elim disjE)
      (simp_all add: bxcan_add_std_mask_def bxcan_acc_ok_def bxcan_shape_def Let_def emit_acc)
  from c show "fst (bxcan_add_std_mask cfg s i m) = CANFILTER_SUCCESS \<or>
       fst (bxcan_add_std_mask cfg s i m) = CANFILTER_ERROR_FULL"
    using assms l
    by (elim disjE)
      (simp_all add: bxcan_add_std_mask_def bxcan_acc_ok_def bxcan_shape_def Let_def
        emit_no_param)
qed

lemma add_ext_list_acc_ok:
  assumes "bxcan_acc_ok s" "i \<le> max_ext_id"
  shows "bxcan_acc_ok (snd (bxcan_add_ext_list cfg s i))"
    and "fst (bxcan_add_ext_list cfg s i) = CANFILTER_SUCCESS \<or>
       fst (bxcan_add_ext_list cfg s i) = CANFILTER_ERROR_FULL"
proof -
  from assms(1) obtain x0 x1 where l: "ext_list s = [x0, x1]"
    using length_2E[of "ext_list s"] by (auto simp: bxcan_acc_ok_def bxcan_shape_def)
  from assms(1) have "ext_list_count s \<le> 1" by (simp add: bxcan_acc_ok_def)
  then have c: "ext_list_count s = 0 \<or> ext_list_count s = 1" by (rule u32_le_1)
  from c show "bxcan_acc_ok (snd (bxcan_add_ext_list cfg s i))"
    using assms l
    by (elim disjE)
      (simp_all add: bxcan_add_ext_list_def bxcan_acc_ok_def bxcan_shape_def Let_def emit_acc)
  from c show "fst (bxcan_add_ext_list cfg s i) = CANFILTER_SUCCESS \<or>
       fst (bxcan_add_ext_list cfg s i) = CANFILTER_ERROR_FULL"
    using assms l
    by (elim disjE)
      (simp_all add: bxcan_add_ext_list_def bxcan_acc_ok_def bxcan_shape_def Let_def
        emit_no_param)
qed

lemma add_ext_mask_acc_ok:
  assumes "bxcan_acc_ok s" "i \<le> max_ext_id" "m \<le> max_ext_id"
  shows "bxcan_acc_ok (snd (bxcan_add_ext_mask cfg s i m))"
    and "fst (bxcan_add_ext_mask cfg s i m) = CANFILTER_SUCCESS \<or>
       fst (bxcan_add_ext_mask cfg s i m) = CANFILTER_ERROR_FULL"
  using assms
  by (simp_all add: bxcan_add_ext_mask_def bxcan_acc_ok_def bxcan_shape_def emit_acc
      emit_no_param)
lemma feed_std_acc_ok:
  "bxcan_acc_ok s \<Longrightarrow> \<forall>c\<in>set bs. fst c \<le> max_std_id \<and> snd c \<le> max_std_id \<Longrightarrow>
   bxcan_acc_ok (snd (bxcan_feed_std cfg s bs)) \<and>
   (fst (bxcan_feed_std cfg s bs) = CANFILTER_SUCCESS \<or>
    fst (bxcan_feed_std cfg s bs) = CANFILTER_ERROR_FULL)"
proof (induction bs arbitrary: s)
  case Nil
  then show ?case by simp
next
  case (Cons c bs)
  let ?r = "if snd c = max_std_id then bxcan_add_std_list cfg s (fst c)
            else bxcan_add_std_mask cfg s (fst c) (snd c)"
  from Cons.prems have c: "fst c \<le> max_std_id" "snd c \<le> max_std_id" by simp_all
  have r: "bxcan_acc_ok (snd ?r)"
    "fst ?r = CANFILTER_SUCCESS \<or> fst ?r = CANFILTER_ERROR_FULL"
    using add_std_list_acc_ok[OF Cons.prems(1) c(1), of cfg]
      add_std_mask_acc_ok[OF Cons.prems(1) c, of cfg]
    by (simp_all split: if_splits)
  show ?case
  proof (cases "fst ?r = CANFILTER_SUCCESS")
    case True
    then have "bxcan_feed_std cfg s (c # bs) = bxcan_feed_std cfg (snd ?r) bs" by simp
    with Cons.IH[OF r(1)] Cons.prems(2) show ?thesis by simp
  next
    case False
    then have "bxcan_feed_std cfg s (c # bs) = ?r" by simp
    with r show ?thesis by simp
  qed
qed

lemma feed_ext_acc_ok:
  "bxcan_acc_ok s \<Longrightarrow> \<forall>c\<in>set bs. fst c \<le> max_ext_id \<and> snd c \<le> max_ext_id \<Longrightarrow>
   bxcan_acc_ok (snd (bxcan_feed_ext cfg s bs)) \<and>
   (fst (bxcan_feed_ext cfg s bs) = CANFILTER_SUCCESS \<or>
    fst (bxcan_feed_ext cfg s bs) = CANFILTER_ERROR_FULL)"
proof (induction bs arbitrary: s)
  case Nil
  then show ?case by simp
next
  case (Cons c bs)
  let ?r = "if snd c = max_ext_id then bxcan_add_ext_list cfg s (fst c)
            else bxcan_add_ext_mask cfg s (fst c) (snd c)"
  from Cons.prems have c: "fst c \<le> max_ext_id" "snd c \<le> max_ext_id" by simp_all
  have r: "bxcan_acc_ok (snd ?r)"
    "fst ?r = CANFILTER_SUCCESS \<or> fst ?r = CANFILTER_ERROR_FULL"
    using add_ext_list_acc_ok[OF Cons.prems(1) c(1), of cfg]
      add_ext_mask_acc_ok[OF Cons.prems(1) c, of cfg]
    by (simp_all split: if_splits)
  show ?case
  proof (cases "fst ?r = CANFILTER_SUCCESS")
    case True
    then have "bxcan_feed_ext cfg s (c # bs) = bxcan_feed_ext cfg (snd ?r) bs" by simp
    with Cons.IH[OF r(1)] Cons.prems(2) show ?thesis by simp
  next
    case False
    then have "bxcan_feed_ext cfg s (c # bs) = ?r" by simp
    with r show ?thesis by simp
  qed
qed

lemma std_blocks_bounds:
  assumes "a \<le> max_std_id" "b \<le> max_std_id"
  shows "\<forall>c\<in>set (std_blocks (min a b) (max a b)). fst c \<le> max_std_id \<and> snd c \<le> max_std_id"
  using std_blocks_facts(1)[OF assms] cidr_block_bounds[of 11]
  by (auto simp: cidr_cover_def max_std_id_mask)

lemma ext_blocks_bounds:
  assumes "a \<le> max_ext_id" "b \<le> max_ext_id"
  shows "\<forall>c\<in>set (ext_blocks (min a b) (max a b)). fst c \<le> max_ext_id \<and> snd c \<le> max_ext_id"
  using ext_blocks_facts(1)[OF assms] cidr_block_bounds[of 29]
  by (auto simp: cidr_cover_def max_ext_id_mask)

lemma add_std_range_acc_ok:
  assumes "bxcan_acc_ok s"
  shows "bxcan_acc_ok (snd (bxcan_add_std_range cfg s a b))"
    and "a \<le> max_std_id \<Longrightarrow> b \<le> max_std_id \<Longrightarrow>
         fst (bxcan_add_std_range cfg s a b) = CANFILTER_SUCCESS \<or>
         fst (bxcan_add_std_range cfg s a b) = CANFILTER_ERROR_FULL"
proof -
  show "bxcan_acc_ok (snd (bxcan_add_std_range cfg s a b))"
  proof (cases "a \<le> max_std_id \<and> b \<le> max_std_id")
    case True
    then show ?thesis
      using feed_std_acc_ok[OF assms std_blocks_bounds, of a b cfg]
      by (simp add: bxcan_add_std_range_feed)
  next
    case False
    then show ?thesis using assms by (auto simp: bxcan_add_std_range_def)
  qed
  show "fst (bxcan_add_std_range cfg s a b) = CANFILTER_SUCCESS \<or>
        fst (bxcan_add_std_range cfg s a b) = CANFILTER_ERROR_FULL"
    if "a \<le> max_std_id" "b \<le> max_std_id"
    using feed_std_acc_ok[OF assms std_blocks_bounds[OF that], of cfg] that
    by (simp add: bxcan_add_std_range_feed)
qed

lemma add_ext_range_acc_ok:
  assumes "bxcan_acc_ok s"
  shows "bxcan_acc_ok (snd (bxcan_add_ext_range cfg s a b))"
    and "a \<le> max_ext_id \<Longrightarrow> b \<le> max_ext_id \<Longrightarrow>
         fst (bxcan_add_ext_range cfg s a b) = CANFILTER_SUCCESS \<or>
         fst (bxcan_add_ext_range cfg s a b) = CANFILTER_ERROR_FULL"
proof -
  show "bxcan_acc_ok (snd (bxcan_add_ext_range cfg s a b))"
  proof (cases "a \<le> max_ext_id \<and> b \<le> max_ext_id")
    case True
    then show ?thesis
      using feed_ext_acc_ok[OF assms ext_blocks_bounds, of a b cfg]
      by (simp add: bxcan_add_ext_range_feed)
  next
    case False
    then show ?thesis using assms by (auto simp: bxcan_add_ext_range_def)
  qed
  show "fst (bxcan_add_ext_range cfg s a b) = CANFILTER_SUCCESS \<or>
        fst (bxcan_add_ext_range cfg s a b) = CANFILTER_ERROR_FULL"
    if "a \<le> max_ext_id" "b \<le> max_ext_id"
    using feed_ext_acc_ok[OF assms ext_blocks_bounds[OF that], of cfg] that
    by (simp add: bxcan_add_ext_range_feed)
qed

lemma end_acc:
  "std_list (snd (bxcan_end cfg s)) = std_list s"
  "std_mask (snd (bxcan_end cfg s)) = std_mask s"
  "ext_list (snd (bxcan_end cfg s)) = ext_list s"
  "std_list_count (snd (bxcan_end cfg s)) = std_list_count s"
  "std_mask_count (snd (bxcan_end cfg s)) = std_mask_count s"
  "ext_list_count (snd (bxcan_end cfg s)) = ext_list_count s"
  by (simp_all add: bxcan_end_def Let_def emit_acc)

lemma end_acc_ok: "bxcan_acc_ok (snd (bxcan_end cfg s)) = bxcan_acc_ok s"
  by (simp add: bxcan_acc_ok_def bxcan_shape_def end_acc)

lemma do_acc_ok: "bxcan_acc_ok s \<Longrightarrow> bxcan_acc_ok (snd (bxcan_do cfg s c))"
  by (cases c)
    (simp_all add: bxcan_add_std_id_def bxcan_add_ext_id_def add_std_range_acc_ok
      add_ext_range_acc_ok end_acc_ok)

lemma run_acc_ok: "bxcan_acc_ok s \<Longrightarrow> bxcan_acc_ok (bxcan_run cfg s cs)"
  by (induction cs arbitrary: s) (simp_all add: do_acc_ok)

lemma begin_acc_ok: "bxcan_shape s \<Longrightarrow> bxcan_acc_ok (snd (bxcan_begin cfg s))"
  by (simp add: bxcan_begin_def bxcan_acc_ok_def bxcan_shape_def)

subsection \<open>No parameter error inside a range\<close>

text \<open>
  C10. When both ends of the range are at most \<open>0x7FF\<close>, every \<open>(id, mask)\<close> pair that the
  loop of \<^verbatim>\<open>add_std_range\<close> generates has \<open>id <= 0x7FF\<close> and \<open>mask <= 0x7FF\<close>; so on a
  builder in any state reached from \<^verbatim>\<open>begin()\<close> the call returns \<^verbatim>\<open>CANFILTER_SUCCESS\<close> or
  \<^verbatim>\<open>CANFILTER_ERROR_FULL\<close>, never the parameter error of an emitter or of an accumulator.
  Likewise for \<^verbatim>\<open>add_ext_range\<close> with \<open>0x1FFFFFFF\<close>.
\<close>

theorem range_pairs_in_space:
  "(a \<le> max_std_id \<and> b \<le> max_std_id \<longrightarrow>
      (\<forall>c\<in>set (std_blocks (min a b) (max a b)). fst c \<le> max_std_id \<and> snd c \<le> max_std_id) \<and>
      (bxcan_shape s0 \<longrightarrow>
         bxcan_add_std_range cfg (bxcan_run cfg (snd (bxcan_begin cfg s0)) calls) a b
           = bxcan_feed_std cfg (bxcan_run cfg (snd (bxcan_begin cfg s0)) calls)
               (std_blocks (min a b) (max a b)) \<and>
         (fst (bxcan_add_std_range cfg (bxcan_run cfg (snd (bxcan_begin cfg s0)) calls) a b)
            = CANFILTER_SUCCESS \<or>
          fst (bxcan_add_std_range cfg (bxcan_run cfg (snd (bxcan_begin cfg s0)) calls) a b)
            = CANFILTER_ERROR_FULL))) \<and>
   (a \<le> max_ext_id \<and> b \<le> max_ext_id \<longrightarrow>
      (\<forall>c\<in>set (ext_blocks (min a b) (max a b)). fst c \<le> max_ext_id \<and> snd c \<le> max_ext_id) \<and>
      (bxcan_shape s0 \<longrightarrow>
         bxcan_add_ext_range cfg (bxcan_run cfg (snd (bxcan_begin cfg s0)) calls) a b
           = bxcan_feed_ext cfg (bxcan_run cfg (snd (bxcan_begin cfg s0)) calls)
               (ext_blocks (min a b) (max a b)) \<and>
         (fst (bxcan_add_ext_range cfg (bxcan_run cfg (snd (bxcan_begin cfg s0)) calls) a b)
            = CANFILTER_SUCCESS \<or>
          fst (bxcan_add_ext_range cfg (bxcan_run cfg (snd (bxcan_begin cfg s0)) calls) a b)
            = CANFILTER_ERROR_FULL)))"
proof (intro conjI impI)
  assume "a \<le> max_std_id \<and> b \<le> max_std_id"
  then have h: "a \<le> max_std_id" "b \<le> max_std_id" by simp_all
  show "\<forall>c\<in>set (std_blocks (min a b) (max a b)). fst c \<le> max_std_id \<and> snd c \<le> max_std_id"
    using h by (rule std_blocks_bounds)
  show "bxcan_add_std_range cfg (bxcan_run cfg (snd (bxcan_begin cfg s0)) calls) a b
      = bxcan_feed_std cfg (bxcan_run cfg (snd (bxcan_begin cfg s0)) calls)
          (std_blocks (min a b) (max a b))"
    using h by (rule bxcan_add_std_range_feed)
  assume "bxcan_shape s0"
  then have "bxcan_acc_ok (bxcan_run cfg (snd (bxcan_begin cfg s0)) calls)"
    by (intro run_acc_ok begin_acc_ok)
  then show "fst (bxcan_add_std_range cfg (bxcan_run cfg (snd (bxcan_begin cfg s0)) calls) a b)
      = CANFILTER_SUCCESS \<or>
    fst (bxcan_add_std_range cfg (bxcan_run cfg (snd (bxcan_begin cfg s0)) calls) a b)
      = CANFILTER_ERROR_FULL"
    using h by (rule add_std_range_acc_ok(2))
next
  assume "a \<le> max_ext_id \<and> b \<le> max_ext_id"
  then have h: "a \<le> max_ext_id" "b \<le> max_ext_id" by simp_all
  show "\<forall>c\<in>set (ext_blocks (min a b) (max a b)). fst c \<le> max_ext_id \<and> snd c \<le> max_ext_id"
    using h by (rule ext_blocks_bounds)
  show "bxcan_add_ext_range cfg (bxcan_run cfg (snd (bxcan_begin cfg s0)) calls) a b
      = bxcan_feed_ext cfg (bxcan_run cfg (snd (bxcan_begin cfg s0)) calls)
          (ext_blocks (min a b) (max a b))"
    using h by (rule bxcan_add_ext_range_feed)
  assume "bxcan_shape s0"
  then have "bxcan_acc_ok (bxcan_run cfg (snd (bxcan_begin cfg s0)) calls)"
    by (intro run_acc_ok begin_acc_ok)
  then show "fst (bxcan_add_ext_range cfg (bxcan_run cfg (snd (bxcan_begin cfg s0)) calls) a b)
      = CANFILTER_SUCCESS \<or>
    fst (bxcan_add_ext_range cfg (bxcan_run cfg (snd (bxcan_begin cfg s0)) calls) a b)
      = CANFILTER_ERROR_FULL"
    using h by (rule add_ext_range_acc_ok(2))
qed

theorem range_pairs_in_space_witness:
  "(0x2FF::u32) \<le> max_std_id \<and> (0x100::u32) \<le> max_std_id \<and>
   (0x2FF::u32) \<le> max_ext_id \<and> (0x100::u32) \<le> max_ext_id \<and>
   bxcan_shape (bxcan_new bxcan_f0) \<and>
   std_blocks 0x100 0x2FF = [(0x100, 0x700), (0x200, 0x700)] \<and>
   (0x200::u32) \<le> max_std_id \<and> (0x700::u32) \<le> max_std_id \<and>
   (fst (bxcan_add_std_range bxcan_f0
          (bxcan_run bxcan_f0 (snd (bxcan_begin bxcan_f0 (bxcan_new bxcan_f0)))
             [Add_std_id 0x100, End]) 0x2FF 0x100) = CANFILTER_SUCCESS \<or>
    fst (bxcan_add_std_range bxcan_f0
          (bxcan_run bxcan_f0 (snd (bxcan_begin bxcan_f0 (bxcan_new bxcan_f0)))
             [Add_std_id 0x100, End]) 0x2FF 0x100) = CANFILTER_ERROR_FULL) \<and>
   ext_blocks 0x100 0x2FF = [(0x100, 0x1FFFFF00), (0x200, 0x1FFFFF00)] \<and>
   (0x200::u32) \<le> max_ext_id \<and> (0x1FFFFF00::u32) \<le> max_ext_id \<and>
   (fst (bxcan_add_ext_range bxcan_f0
          (bxcan_run bxcan_f0 (snd (bxcan_begin bxcan_f0 (bxcan_new bxcan_f0)))
             [Add_std_id 0x100, End]) 0x2FF 0x100) = CANFILTER_SUCCESS \<or>
    fst (bxcan_add_ext_range bxcan_f0
          (bxcan_run bxcan_f0 (snd (bxcan_begin bxcan_f0 (bxcan_new bxcan_f0)))
             [Add_std_id 0x100, End]) 0x2FF 0x100) = CANFILTER_ERROR_FULL)"
proof -
  have h: "(0x2FF::u32) \<le> max_std_id \<and> (0x100::u32) \<le> max_std_id"
    "(0x2FF::u32) \<le> max_ext_id \<and> (0x100::u32) \<le> max_ext_id"
    by (simp_all add: max_std_id_def max_ext_id_def)
  have sh: "bxcan_shape (bxcan_new bxcan_f0)"
    by (simp add: bxcan_shape_def bxcan_new_def)
  have m: "min (0x2FF::u32) 0x100 = 0x100" "max (0x2FF::u32) 0x100 = 0x2FF" by simp_all
  note T = range_pairs_in_space[of "0x2FF" "0x100" "bxcan_new bxcan_f0" bxcan_f0
      "[Add_std_id 0x100, End]"]
  note S = T[THEN conjunct1, THEN mp, OF h(1)]
  note E = T[THEN conjunct2, THEN mp, OF h(2)]
  have s1: "(0x200::u32) \<le> max_std_id \<and> (0x700::u32) \<le> max_std_id"
    using S[THEN conjunct1] unfolding m std_blocks_example by simp
  have e1: "(0x200::u32) \<le> max_ext_id \<and> (0x1FFFFF00::u32) \<le> max_ext_id"
    using E[THEN conjunct1] unfolding m ext_blocks_example by simp
  show ?thesis
    using h sh s1 e1 S[THEN conjunct2, THEN mp, OF sh, THEN conjunct2]
      E[THEN conjunct2, THEN mp, OF sh, THEN conjunct2]
    by (intro conjI) (simp_all only: std_blocks_example ext_blocks_example)
qed

section \<open>What \<^verbatim>\<open>end()\<close> does to the accumulators\<close>

lemma emit_bank:
  "fst (bxcan_emit_std_list cfg s i1 i2 i3 i4) = CANFILTER_SUCCESS \<Longrightarrow>
     bank (snd (bxcan_emit_std_list cfg s i1 i2 i3 i4)) = bank s + 1"
  "fst (bxcan_emit_std_mask cfg s i1 m1 i2 m2) = CANFILTER_SUCCESS \<Longrightarrow>
     bank (snd (bxcan_emit_std_mask cfg s i1 m1 i2 m2)) = bank s + 1"
  "fst (bxcan_emit_ext_list cfg s i1 i2) = CANFILTER_SUCCESS \<Longrightarrow>
     bank (snd (bxcan_emit_ext_list cfg s i1 i2)) = bank s + 1"
  by (simp_all add: bxcan_emit_std_list_def bxcan_emit_std_mask_def bxcan_emit_ext_list_def
      write_bank_def Let_def split: if_splits)

lemma end_bank:
  assumes "fst (bxcan_end cfg s) = CANFILTER_SUCCESS"
  shows "bank (snd (bxcan_end cfg s)) =
         bank s + (if std_list_count s \<noteq> 0 then 1 else 0)
                + (if std_mask_count s \<noteq> 0 then 1 else 0)
                + (if ext_list_count s \<noteq> 0 then 1 else 0)"
proof -
  define r1 where "r1 = (if std_list_count s \<noteq> 0
                then bxcan_emit_std_list cfg s (std_list s ! 0) (std_list s ! 1)
                       (std_list s ! 2) (std_list s ! 3)
                else (CANFILTER_SUCCESS, s))"
  define r2 where "r2 = (if std_mask_count (snd r1) \<noteq> 0 \<and> fst r1 = CANFILTER_SUCCESS
                then bxcan_emit_std_mask cfg (snd r1)
                       (fst (std_mask (snd r1) ! 0)) (snd (std_mask (snd r1) ! 0))
                       (fst (std_mask (snd r1) ! 1)) (snd (std_mask (snd r1) ! 1))
                else r1)"
  define r3 where "r3 = (if ext_list_count (snd r2) \<noteq> 0 \<and> fst r2 = CANFILTER_SUCCESS
         then bxcan_emit_ext_list cfg (snd r2) (ext_list (snd r2) ! 0) (ext_list (snd r2) ! 1)
         else r2)"
  have e: "bxcan_end cfg s = r3"
    by (simp add: bxcan_end_def r1_def r2_def r3_def Let_def)
  have c1: "std_mask_count (snd r1) = std_mask_count s" "ext_list_count (snd r1) = ext_list_count s"
    by (simp_all add: r1_def emit_acc)
  have c2: "ext_list_count (snd r2) = ext_list_count s"
    by (simp add: r2_def emit_acc c1)
  from assms e have s3: "fst r3 = CANFILTER_SUCCESS" by simp
  then have s2: "fst r2 = CANFILTER_SUCCESS" by (simp add: r3_def split: if_splits)
  then have s1: "fst r1 = CANFILTER_SUCCESS" by (simp add: r2_def split: if_splits)
  have b1: "bank (snd r1) = bank s + (if std_list_count s \<noteq> 0 then 1 else 0)"
    using s1 by (simp add: r1_def emit_bank split: if_splits)
  have b2: "bank (snd r2) = bank (snd r1) + (if std_mask_count s \<noteq> 0 then 1 else 0)"
    using s2 s1 by (simp add: r2_def c1 emit_bank split: if_splits)
  have b3: "bank (snd r3) = bank (snd r2) + (if ext_list_count s \<noteq> 0 then 1 else 0)"
    using s3 s2 by (simp add: r3_def c2 emit_bank split: if_splits)
  show ?thesis unfolding e b3 b2 b1 ..
qed

lemma fdcan_emit_id_acc:
  "std_id_count (snd (fdcan_emit_std_id cfg t i1 i2)) = std_id_count t"
  "ext_id_count (snd (fdcan_emit_std_id cfg t i1 i2)) = ext_id_count t"
  "std_id_count (snd (fdcan_emit_ext_id cfg t i1 i2)) = std_id_count t"
  "ext_id_count (snd (fdcan_emit_ext_id cfg t i1 i2)) = ext_id_count t"
  by (simp_all add: fdcan_emit_std_id_def fdcan_emit_ext_id_def Let_def)

lemma fdcan_end_acc:
  "std_id_count (snd (fdcan_end cfg t)) = std_id_count t"
  "ext_id_count (snd (fdcan_end cfg t)) = ext_id_count t"
  by (simp_all add: fdcan_end_def Let_def fdcan_emit_id_acc split: prod.splits)
    (metis fdcan_emit_id_acc snd_conv)+

lemma fdcan_end_nbr:
  assumes "fst (fdcan_end cfg t) = CANFILTER_SUCCESS"
  shows "std_filter_nbr (fd_hw_config (snd (fdcan_end cfg t))) =
           std_filter_nbr (fd_hw_config t) + (if std_id_count t \<noteq> 0 then 1 else 0)"
    and "ext_filter_nbr (fd_hw_config (snd (fdcan_end cfg t))) =
           ext_filter_nbr (fd_hw_config t) + (if ext_id_count t \<noteq> 0 then 1 else 0)"
  using assms
  by (auto simp: fdcan_end_def fdcan_emit_std_id_def fdcan_emit_ext_id_def Let_def
      split: if_splits prod.splits)

text \<open>
  C4, as the specification states it: after a sequence of successful \<^verbatim>\<open>add_*\<close> calls and an
  \<^verbatim>\<open>end()\<close> that returns \<^verbatim>\<open>CANFILTER_SUCCESS\<close>, all accumulator counts are zero. The code
  does otherwise: \<^verbatim>\<open>end()\<close> never writes a count. After \<^verbatim>\<open>begin()\<close> and
  \<^verbatim>\<open>add_std_id(0x100)\<close>, both successful, \<^verbatim>\<open>end()\<close> returns \<^verbatim>\<open>CANFILTER_SUCCESS\<close> and
  \<^verbatim>\<open>std_list_count\<close> (bxCAN-14) and \<^verbatim>\<open>std_id_count\<close> (FDCAN-28-8) are still 1.
\<close>

theorem end_leaves_pending_counterexample:
  "fst (bxcan_begin bxcan_f0 (bxcan_new bxcan_f0)) = CANFILTER_SUCCESS \<and>
   fst (bxcan_add_std_id bxcan_f0 (snd (bxcan_begin bxcan_f0 (bxcan_new bxcan_f0))) 0x100)
     = CANFILTER_SUCCESS \<and>
   fst (bxcan_end bxcan_f0 bxcan_pending) = CANFILTER_SUCCESS \<and>
   std_list_count (snd (bxcan_end bxcan_f0 bxcan_pending)) = 1 \<and>
   fst (fdcan_begin fdcan_g0 (fdcan_new fdcan_g0)) = CANFILTER_SUCCESS \<and>
   fst (fdcan_add_std_id fdcan_g0 (snd (fdcan_begin fdcan_g0 (fdcan_new fdcan_g0))) 0x100)
     = CANFILTER_SUCCESS \<and>
   fst (fdcan_end fdcan_g0 fdcan_pending) = CANFILTER_SUCCESS \<and>
   std_id_count (snd (fdcan_end fdcan_g0 fdcan_pending)) = 1"
  by (intro conjI) (simp_all add: bxcan_pending_def fdcan_pending_def bxcan_eval fdcan_eval)

text \<open>
  C4, amended. \<^verbatim>\<open>end()\<close> leaves every accumulator count as it found it, whatever it
  returns: \<^verbatim>\<open>std_list_count\<close>, \<^verbatim>\<open>std_mask_count\<close> and \<^verbatim>\<open>ext_list_count\<close> in the bxCAN
  builder, \<^verbatim>\<open>std_id_count\<close> and \<^verbatim>\<open>ext_id_count\<close> in the FDCAN builder. So after an
  \<^verbatim>\<open>end()\<close> that returns \<^verbatim>\<open>CANFILTER_SUCCESS\<close> an accumulator is empty only if it was
  empty before the call. When \<^verbatim>\<open>end()\<close> returns \<^verbatim>\<open>CANFILTER_SUCCESS\<close>, \<^verbatim>\<open>bank\<close> has
  advanced by the number of bxCAN accumulators that were not empty, and
  \<^verbatim>\<open>std_filter_nbr\<close> and \<^verbatim>\<open>ext_filter_nbr\<close> by one when the FDCAN accumulator of that
  kind was not empty.
\<close>

theorem end_keeps_accumulators:
  "std_list_count (snd (bxcan_end cfg s)) = std_list_count s \<and>
   std_mask_count (snd (bxcan_end cfg s)) = std_mask_count s \<and>
   ext_list_count (snd (bxcan_end cfg s)) = ext_list_count s \<and>
   (fst (bxcan_end cfg s) = CANFILTER_SUCCESS \<longrightarrow>
      bank (snd (bxcan_end cfg s)) =
        bank s + (if std_list_count s \<noteq> 0 then 1 else 0)
               + (if std_mask_count s \<noteq> 0 then 1 else 0)
               + (if ext_list_count s \<noteq> 0 then 1 else 0)) \<and>
   std_id_count (snd (fdcan_end fcfg t)) = std_id_count t \<and>
   ext_id_count (snd (fdcan_end fcfg t)) = ext_id_count t \<and>
   (fst (fdcan_end fcfg t) = CANFILTER_SUCCESS \<longrightarrow>
      std_filter_nbr (fd_hw_config (snd (fdcan_end fcfg t))) =
        std_filter_nbr (fd_hw_config t) + (if std_id_count t \<noteq> 0 then 1 else 0) \<and>
      ext_filter_nbr (fd_hw_config (snd (fdcan_end fcfg t))) =
        ext_filter_nbr (fd_hw_config t) + (if ext_id_count t \<noteq> 0 then 1 else 0))"
  by (intro conjI impI) (simp_all add: end_acc fdcan_end_acc end_bank fdcan_end_nbr)

theorem end_keeps_accumulators_witness:
  "fst (bxcan_end bxcan_f0 bxcan_pending) = CANFILTER_SUCCESS \<and>
   std_list_count bxcan_pending = 1 \<and> std_mask_count bxcan_pending = 0 \<and>
   ext_list_count bxcan_pending = 0 \<and> bank bxcan_pending = 0 \<and>
   bank (snd (bxcan_end bxcan_f0 bxcan_pending)) = 1 \<and>
   std_list_count (snd (bxcan_end bxcan_f0 bxcan_pending)) = 1 \<and>
   fst (fdcan_end fdcan_g0 fdcan_pending) = CANFILTER_SUCCESS \<and>
   std_id_count fdcan_pending = 1 \<and> ext_id_count fdcan_pending = 0 \<and>
   std_filter_nbr (fd_hw_config fdcan_pending) = 0 \<and>
   std_filter_nbr (fd_hw_config (snd (fdcan_end fdcan_g0 fdcan_pending))) = 1 \<and>
   ext_filter_nbr (fd_hw_config (snd (fdcan_end fdcan_g0 fdcan_pending))) = 0 \<and>
   std_id_count (snd (fdcan_end fdcan_g0 fdcan_pending)) = 1"
proof -
  have b: "fst (bxcan_end bxcan_f0 bxcan_pending) = CANFILTER_SUCCESS"
    "std_list_count bxcan_pending = 1" "std_mask_count bxcan_pending = 0"
    "ext_list_count bxcan_pending = 0" "bank bxcan_pending = 0"
    by (simp_all add: bxcan_pending_def bxcan_eval)
  have f: "fst (fdcan_end fdcan_g0 fdcan_pending) = CANFILTER_SUCCESS"
    "std_id_count fdcan_pending = 1" "ext_id_count fdcan_pending = 0"
    "std_filter_nbr (fd_hw_config fdcan_pending) = 0"
    "ext_filter_nbr (fd_hw_config fdcan_pending) = 0"
    by (simp_all add: fdcan_pending_def fdcan_eval)
  show ?thesis
    using end_keeps_accumulators[of bxcan_f0 bxcan_pending fdcan_g0 fdcan_pending]
    by (simp add: b f)
qed

section \<open>The parser\<close>

lemmas strtoul_eval =
  strtoul_def strtoul_signed_def strtoul_unsigned_def strtoul_finish_def isspace_def
  digit_val_def ULONG_MAX_def Let_def

lemmas parse_eval =
  parse_def parse_loop.simps skip_space.simps skip_space_comma.simps strtoul_eval
  recording_ops_def max_std_id_def max_ext_id_def

lemma skip_space_blank:
  "\<forall>i. pos \<le> i \<and> i < length input \<longrightarrow> isspace (input ! i) \<Longrightarrow> pos \<le> length input
   \<Longrightarrow> skip_space input pos = length input"
proof (induction input pos rule: skip_space.induct)
  case (1 input pos)
  show ?case
  proof (cases "pos < length input")
    case True
    with 1(2) have c: "pos < length input \<and> isspace (input ! pos)" by simp
    have "skip_space input pos = skip_space input (pos + 1)"
      by (subst skip_space.simps) (simp only: c simp_thms if_True)
    also have "\<dots> = length input"
      using 1(1)[OF c] 1(2) True by simp
    finally show ?thesis .
  next
    case False
    with 1(3) have "pos = length input" by simp
    then show ?thesis by (subst skip_space.simps) simp
  qed
qed

lemma parse_blank:
  assumes "\<forall>c\<in>set input. isspace c"
  shows "parse ops input s = (True, s)"
proof (cases "input = []")
  case True
  then show ?thesis by (simp add: parse_def)
next
  case False
  have "skip_space input 0 = length input"
    using assms by (intro skip_space_blank) simp_all
  then show ?thesis
    using False by (simp add: parse_def parse_loop.simps[of ops input 0 s])
qed

lemma parse_comma: "parse ops '','' s = (False, s)"
  by (simp add: parse_def parse_loop.simps[of ops] skip_space.simps strtoul_eval)

subsection \<open>Inputs without a directive\<close>

text \<open>
  C6, as the specification states it: \<^verbatim>\<open>parse\<close> applied to the empty string, to a string of
  white space only, and to the string \<^verbatim>\<open>","\<close> returns true each time without calling the
  builder. The code does otherwise on \<^verbatim>\<open>","\<close>: commas are skipped only after a directive,
  so \<^verbatim>\<open>strtoul\<close> meets the comma, converts nothing, and \<^verbatim>\<open>parse\<close> returns false.
\<close>

theorem parse_comma_counterexample:
  "parse (recording_ops CANFILTER_SUCCESS) '','' [] = (False, [])"
  by (simp add: parse_eval)

text \<open>
  C6, amended. \<^verbatim>\<open>parse\<close> applied to the empty string and to a string of white space only
  returns true, and applied to the string \<^verbatim>\<open>","\<close> it returns false; in all three cases it
  calls no operation of the builder, whose state is what it was (for every builder, so also
  for one that records each call).
\<close>

theorem parse_without_directive:
  "parse ops [] s = (True, s) \<and>
   ((\<forall>c\<in>set input. isspace c) \<longrightarrow> parse ops input s = (True, s)) \<and>
   parse ops '','' s = (False, s)"
  by (intro conjI impI) (simp_all add: parse_blank parse_comma)

theorem parse_without_directive_witness:
  "isspace (CHR '' '') \<and> isspace (CHR 0x09) \<and>
   parse (recording_ops CANFILTER_ERROR_FULL) [CHR '' '', CHR 0x09, CHR '' ''] []
     = (True, []) \<and>
   parse (recording_ops CANFILTER_ERROR_FULL) [] [] = (True, []) \<and>
   parse (recording_ops CANFILTER_ERROR_FULL) '','' [] = (False, [])"
proof -
  have w: "isspace (CHR '' '')" "isspace (CHR 0x09)" by (simp_all add: isspace_def)
  then have "\<forall>c\<in>set [CHR '' '', CHR 0x09, CHR '' '']. isspace c" by simp
  with parse_without_directive[of "recording_ops CANFILTER_ERROR_FULL" "[]"
      "[CHR '' '', CHR 0x09, CHR '' '']"] w
  show ?thesis by blast
qed

subsection \<open>The result codes of the builder\<close>

lemma parse_loop_fst:
  "fst (parse_loop ops input pos s) = fst (parse_loop ops' input pos s')"
proof (induction ops input pos s arbitrary: s' rule: parse_loop.induct)
  case (1 ops input pos s)
  show ?case
    by (simp add: parse_loop.simps[of ops input pos s] parse_loop.simps[of ops' input pos s']
        Let_def)
      (intro conjI impI 1; simp)
qed

lemma parse_loop_recording:
  "parse_loop (recording_ops err) input pos log
     = parse_loop (recording_ops CANFILTER_SUCCESS) input pos log"
proof (induction "recording_ops err" input pos log rule: parse_loop.induct)
  case (1 input pos s)
  have sel: "\<And>e l i. snd (add_std_id (recording_ops e) l i) = l @ [StdId i]"
    "\<And>e l i. snd (add_ext_id (recording_ops e) l i) = l @ [ExtId i]"
    "\<And>e l a b. snd (add_std_range (recording_ops e) l a b) = l @ [StdRange a b]"
    "\<And>e l a b. snd (add_ext_range (recording_ops e) l a b) = l @ [ExtRange a b]"
    by (simp_all add: recording_ops_def)
  show ?case
    by (simp add: parse_loop.simps[of "recording_ops err" input pos s]
        parse_loop.simps[of "recording_ops CANFILTER_SUCCESS" input pos s] Let_def sel)
      (intro conjI impI 1[unfolded sel]; simp)
qed

lemma full_range_example:
  "fst (bxcan_add_std_range bxcan_f0 bxcan_f0_full 0x100 0x2FF) = CANFILTER_ERROR_FULL"
  by (simp add: bxcan_f0_full_def bxcan_eval)

subsection \<open>Texts that parse\<close>

lemma digit_char_code:
  "digit_val c < 36 \<Longrightarrow> 48 \<le> (of_char c :: nat)"
  by (simp add: digit_val_def Let_def split: if_splits)

lemma digit_not_space: "digit_val c < 36 \<Longrightarrow> \<not> isspace c"
  using digit_char_code[of c] by (auto simp: isspace_def Let_def)

lemma digit_not_sign: "digit_val c < 36 \<Longrightarrow> c \<noteq> CHR ''-'' \<and> c \<noteq> CHR ''+'' \<and> c \<noteq> CHR '',''"
  using digit_char_code[of c] by auto

lemma space_no_digit: "isspace c \<Longrightarrow> digit_val c = 36"
  by (auto simp: isspace_def digit_val_def Let_def)

lemma minus_facts:
  "digit_val CHR ''-'' = 36" "\<not> isspace CHR ''-''" "digit_val CHR '','' = 36"
  "\<not> isspace CHR '',''" "digit_val CHR ''0'' = 0" "digit_val CHR ''x'' = 33"
  "digit_val CHR ''X'' = 33"
  by (simp_all add: digit_val_def isspace_def)

lemma strtoul_digits_append:
  "list_all (\<lambda>c. digit_val c < base) ds \<Longrightarrow> rest = [] \<or> \<not> digit_val (hd rest) < base \<Longrightarrow>
   strtoul_digits base (ds @ rest) v n
     = (foldl (\<lambda>v c. v * base + digit_val c) v ds, n + length ds)"
proof (induction ds arbitrary: v n)
  case Nil
  then show ?case by (cases rest) auto
next
  case (Cons c ds)
  then show ?case by simp
qed

lemma strtoul_base_decimal:
  assumes "c \<noteq> CHR ''0''"
  shows "strtoul_base (c # cs) = (10, 0)"
proof (cases cs)
  case Nil
  then show ?thesis using assms by simp
next
  case (Cons a as)
  then show ?thesis using assms by (cases as) simp_all
qed

lemma strtoul_base_octal:
  assumes "cs = [] \<or> digit_val (hd cs) < 8 \<or> digit_val (hd cs) = 36"
  shows "strtoul_base (CHR ''0'' # cs) = (8, 0)"
proof (cases cs)
  case Nil
  then show ?thesis by simp
next
  case (Cons a as)
  then show ?thesis using assms by (cases as) (auto simp: minus_facts)
qed

lemma strtoul_base_hex:
  "x = CHR ''x'' \<or> x = CHR ''X'' \<Longrightarrow> digit_val h < 16 \<Longrightarrow>
   strtoul_base (CHR ''0'' # x # h # cs) = (16, 2)"
  by auto

lemma strtoul_plain:
  assumes "digit_val c < 36"
  shows "strtoul (c # cs) =
     strtoul_finish False (snd (strtoul_base (c # cs)))
       (strtoul_digits (fst (strtoul_base (c # cs))) (drop (snd (strtoul_base (c # cs))) (c # cs))
          0 0)"
  using digit_not_space[OF assms] digit_not_sign[OF assms]
  by (simp add: strtoul_def strtoul_signed_def strtoul_unsigned_def)

lemma strtoul_number:
  assumes "number_ok n" "number_value n \<le> ULONG_MAX"
    and "rest = [] \<or> digit_val (hd rest) = 36"
  shows "strtoul (number_text n @ rest) =
    \<lparr>ul_value = number_value n, ul_len = length (number_text n), ul_erange = False\<rparr>"
proof (cases n)
  case (Decimal ds)
  with assms(1) obtain c cs where ds: "ds = c # cs" and c: "digit_val c < 10" "c \<noteq> CHR ''0''"
    and all: "list_all (\<lambda>c. digit_val c < 10) ds"
    by (cases ds) auto
  have t: "rest = [] \<or> \<not> digit_val (hd rest) < 10" using assms(3) by auto
  have b: "strtoul_base (c # cs @ rest) = (10, 0)"
    using c(2) by (rule strtoul_base_decimal)
  have "strtoul (ds @ rest) = strtoul_finish False 0 (strtoul_digits 10 (ds @ rest) 0 0)"
    unfolding ds using c(1)
    by (simp add: strtoul_plain[of c] b del: strtoul_base.simps)
  also have "\<dots> = strtoul_finish False 0 (digits_value 10 ds, length ds)"
    by (simp add: strtoul_digits_append[OF all t] digits_value_def)
  finally show ?thesis
    using assms(2) Decimal ds by (simp add: strtoul_finish_def)
next
  case (Octal ds)
  with assms(1) have all: "list_all (\<lambda>c. digit_val c < 8) (CHR ''0'' # ds)"
    by (simp add: minus_facts)
  have t: "rest = [] \<or> \<not> digit_val (hd rest) < 8" using assms(3) by auto
  have b: "strtoul_base (CHR ''0'' # ds @ rest) = (8, 0)"
  proof (rule strtoul_base_octal)
    show "ds @ rest = [] \<or> digit_val (hd (ds @ rest)) < 8 \<or> digit_val (hd (ds @ rest)) = 36"
      using assms(1,3) Octal by (cases ds) auto
  qed
  have "strtoul (number_text n @ rest)
      = strtoul_finish False 0 (strtoul_digits 8 ((CHR ''0'' # ds) @ rest) 0 0)"
    unfolding Octal
    by (simp add: strtoul_plain[of "CHR ''0''"] minus_facts b del: strtoul_base.simps)
  also have "\<dots> = strtoul_finish False 0 (digits_value 8 ds, length ds + 1)"
    by (simp only: strtoul_digits_append[OF all t]) (simp add: digits_value_def minus_facts)
  finally show ?thesis
    using assms(2) Octal by (simp add: strtoul_finish_def)
next
  case (Hexadecimal x ds)
  with assms(1) obtain h hs where ds: "ds = h # hs" and h: "digit_val h < 16"
    and x: "x = CHR ''x'' \<or> x = CHR ''X''"
    and all: "list_all (\<lambda>c. digit_val c < 16) ds"
    by (cases ds) auto
  have t: "rest = [] \<or> \<not> digit_val (hd rest) < 16" using assms(3) by auto
  have b: "strtoul_base (CHR ''0'' # x # h # hs @ rest) = (16, 2)"
    using x h by (rule strtoul_base_hex)
  have "strtoul (number_text n @ rest)
      = strtoul_finish False 2 (strtoul_digits 16 (ds @ rest) 0 0)"
    unfolding Hexadecimal ds
    by (simp add: strtoul_plain[of "CHR ''0''"] minus_facts b del: strtoul_base.simps)
  also have "\<dots> = strtoul_finish False 2 (digits_value 16 ds, length ds)"
    by (simp add: strtoul_digits_append[OF all t] digits_value_def)
  finally show ?thesis
    using assms(2) Hexadecimal ds by (simp add: strtoul_finish_def)
qed

lemma skip_space_takeWhile:
  "skip_space input pos = pos + length (takeWhile isspace (drop pos input))"
proof (induction input pos rule: skip_space.induct)
  case (1 input pos)
  show ?case
  proof (cases "pos < length input \<and> isspace (input ! pos)")
    case True
    then have d: "drop pos input = input ! pos # drop (pos + 1) input"
      by (simp add: Cons_nth_drop_Suc)
    have "skip_space input pos = skip_space input (pos + 1)"
      by (subst skip_space.simps) (simp only: True simp_thms if_True)
    then show ?thesis using 1[OF True] True by (simp add: d)
  next
    case False
    have s: "skip_space input pos = pos"
      by (subst skip_space.simps) (simp only: False simp_thms if_False)
    show ?thesis
    proof (cases "pos < length input")
      case True
      then have d: "drop pos input = input ! pos # drop (pos + 1) input"
        by (simp add: Cons_nth_drop_Suc)
      show ?thesis using False True by (simp add: s d)
    next
      case False
      then show ?thesis by (simp add: s)
    qed
  qed
qed

lemma skip_space_comma_takeWhile:
  "skip_space_comma input pos = pos + length (takeWhile is_separator (drop pos input))"
proof (induction input pos rule: skip_space_comma.induct)
  case (1 input pos)
  show ?case
  proof (cases "pos < length input \<and> (isspace (input ! pos) \<or> input ! pos = CHR '','')")
    case True
    then have d: "drop pos input = input ! pos # drop (pos + 1) input"
      by (simp add: Cons_nth_drop_Suc)
    have "skip_space_comma input pos = skip_space_comma input (pos + 1)"
      by (subst skip_space_comma.simps) (simp only: True simp_thms if_True)
    then show ?thesis using 1[OF True] True by (auto simp: d is_separator_def)
  next
    case False
    have s: "skip_space_comma input pos = pos"
      by (subst skip_space_comma.simps) (simp only: False simp_thms if_False)
    show ?thesis
    proof (cases "pos < length input")
      case True
      then have d: "drop pos input = input ! pos # drop (pos + 1) input"
        by (simp add: Cons_nth_drop_Suc)
      show ?thesis using False True by (auto simp: s d is_separator_def)
    next
      case False
      then show ?thesis by (simp add: s)
    qed
  qed
qed

lemma separator_no_digit: "is_separator c \<Longrightarrow> digit_val c = 36"
  by (auto simp: is_separator_def space_no_digit minus_facts)

lemma digit_not_separator: "digit_val c < 36 \<Longrightarrow> \<not> is_separator c"
  using separator_no_digit[of c] by auto

lemma takeWhile_blank_prefix:
  "list_all isspace ws \<Longrightarrow> rest = [] \<or> \<not> isspace (hd rest) \<Longrightarrow>
   takeWhile isspace (ws @ rest) = ws"
  by (induction ws) (cases rest; auto)+

lemma takeWhile_separator_prefix:
  "list_all is_separator sep \<Longrightarrow> rest = [] \<or> \<not> is_separator (hd rest) \<Longrightarrow>
   takeWhile is_separator (sep @ rest) = sep"
  by (induction sep) (cases rest; auto)+

lemma skip_blank_then_separators:
  "length (takeWhile isspace r) + length (takeWhile is_separator (dropWhile isspace r))
     = length (takeWhile is_separator r)"
  by (induction r) (auto simp: is_separator_def)

lemma after_separators_no_minus:
  "list_all is_separator sep \<Longrightarrow> rest = [] \<or> digit_val (hd rest) < 36 \<Longrightarrow>
   dropWhile isspace (sep @ rest) = [] \<or> hd (dropWhile isspace (sep @ rest)) \<noteq> CHR ''-''"
proof (induction sep)
  case Nil
  then show ?case
    using digit_not_space[of "hd rest"] digit_not_sign[of "hd rest"]
    by (cases rest) auto
next
  case (Cons c sep)
  then show ?case by (auto simp: is_separator_def minus_facts)
qed

lemma number_text_head:
  "number_ok n \<Longrightarrow> number_text n \<noteq> [] \<and> digit_val (hd (number_text n)) < 10"
  by (cases n) (auto simp: minus_facts neq_Nil_conv)

lemma classify_value:
  assumes "v \<le> 0x1FFFFFFF"
  shows "((of_nat v :: u32) \<le> max_std_id) = (v \<le> 0x7FF)"
    and "(of_nat v :: u32) \<le> max_ext_id"
proof -
  have u: "unat (of_nat v :: u32) = v"
    using assms by (simp add: unat_of_nat take_bit_nat_eq_self)
  show "((of_nat v :: u32) \<le> max_std_id) = (v \<le> 0x7FF)"
    by (simp add: word_le_nat_alt u max_std_id_def)
  show "(of_nat v :: u32) \<le> max_ext_id"
    using assms by (simp add: word_le_nat_alt u max_ext_id_def)
qed

lemma drop_more: "drop p input = xs @ ys \<Longrightarrow> drop (p + length xs) input = ys"
proof -
  assume a: "drop p input = xs @ ys"
  have "drop (p + length xs) input = drop (length xs) (drop p input)"
    by (simp add: add.commute)
  then show ?thesis by (simp add: a)
qed

lemma nth_is_hd_drop: "drop p input = c # cs \<Longrightarrow> p < length input \<and> input ! p = c"
proof -
  assume a: "drop p input = c # cs"
  then have l: "p < length input" by (cases "p < length input") auto
  with a show ?thesis by (simp add: hd_drop_conv_nth[symmetric])
qed

lemma skip_space_over:
  assumes "drop p input = ws @ rest" "list_all isspace ws" "rest = [] \<or> \<not> isspace (hd rest)"
  shows "skip_space input p = p + length ws"
  by (simp add: skip_space_takeWhile assms(1) takeWhile_blank_prefix[OF assms(2,3)])

lemma parse_single_step:
  assumes d: "drop pos input = lead @ number_text n @ sep @ rest"
    and lead: "list_all isspace lead"
    and n: "number_ok n" "number_value n \<le> 0x1FFFFFFF"
    and sep: "list_all is_separator sep" "sep = [] \<longrightarrow> rest = []"
    and rest: "rest = [] \<or> digit_val (hd rest) < 36"
  shows "parse_loop ops input pos s =
     parse_loop ops input (pos + length lead + length (number_text n) + length sep)
       (snd (if number_value n \<le> 0x7FF then add_std_id ops s (of_nat (number_value n))
             else add_ext_id ops s (of_nat (number_value n))))"
proof -
  let ?L = "length (number_text n)"
  let ?t = "sep @ rest"
  obtain c cs where nt: "number_text n = c # cs" and c: "digit_val c < 10"
    using number_text_head[OF n(1)] by (cases "number_text n") auto
  have ne: "number_text n \<noteq> []" by (simp add: nt)
  have lt: "pos < length input"
    using d nt by (cases "pos < length input") auto
  have p1: "skip_space input pos = pos + length lead"
  proof (rule skip_space_over[OF _ lead])
    show "drop pos input = lead @ number_text n @ sep @ rest" by (rule d)
    show "number_text n @ sep @ rest = [] \<or> \<not> isspace (hd (number_text n @ sep @ rest))"
      using digit_not_space[of c] c by (simp add: nt)
  qed
  have d1: "drop (pos + length lead) input = number_text n @ ?t"
    using drop_more[OF d] by simp
  have lt1: "\<not> length input \<le> pos + length lead"
    using nth_is_hd_drop[of "pos + length lead" input c "cs @ ?t"] d1 nt by simp
  have tm: "?t = [] \<or> digit_val (hd ?t) = 36"
  proof (cases sep)
    case Nil
    then show ?thesis using sep(2) by simp
  next
    case (Cons a as)
    then show ?thesis using sep(1) by (simp add: separator_no_digit)
  qed
  have st: "strtoul (drop (pos + length lead) input) =
      \<lparr>ul_value = number_value n, ul_len = ?L, ul_erange = False\<rparr>"
    unfolding d1 using n(2) by (intro strtoul_number[OF n(1) _ tm]) (simp add: ULONG_MAX_def)
  have d2: "drop (pos + length lead + ?L) input = ?t"
    using drop_more[OF d1] by simp
  let ?p2 = "pos + length lead + ?L + length (takeWhile isspace ?t)"
  have p2: "skip_space input (pos + length lead + ?L) = ?p2"
    by (simp add: skip_space_takeWhile d2)
  have d3: "drop ?p2 input = dropWhile isspace ?t"
  proof -
    have "drop ?p2 input = drop (length (takeWhile isspace ?t)) (drop (pos + length lead + ?L) input)"
      by (simp add: add.commute)
    then show ?thesis by (simp add: d2 dropWhile_eq_drop)
  qed
  have nm: "(?p2 < length input \<and> input ! ?p2 = CHR ''-'') = False"
  proof -
    have "input ! ?p2 \<noteq> CHR ''-''" if "?p2 < length input"
    proof -
      from that have "drop ?p2 input = input ! ?p2 # drop (Suc ?p2) input"
        by (simp add: Cons_nth_drop_Suc)
      then have "dropWhile isspace ?t \<noteq> [] \<and> hd (dropWhile isspace ?t) = input ! ?p2"
        using d3 by simp
      then show ?thesis
        using after_separators_no_minus[OF sep(1) rest] by auto
    qed
    then show ?thesis by auto
  qed
  have p3: "skip_space_comma input ?p2 = pos + length lead + ?L + length sep"
  proof -
    have r: "rest = [] \<or> \<not> is_separator (hd rest)"
      using rest digit_not_separator[of "hd rest"] by auto
    have "skip_space_comma input ?p2
        = ?p2 + length (takeWhile is_separator (dropWhile isspace ?t))"
      by (simp only: skip_space_comma_takeWhile d3)
    also have "\<dots> = pos + length lead + ?L + length (takeWhile is_separator ?t)"
      using skip_blank_then_separators[of ?t] by simp
    also have "\<dots> = pos + length lead + ?L + length sep"
      by (simp only: takeWhile_separator_prefix[OF sep(1) r])
    finally show ?thesis .
  qed
  show ?thesis
    by (subst parse_loop.simps)
      (simp add: lt p1 lt1 st p2 nm p3 ne classify_value[OF n(2)] Let_def del: add_Suc_right)
qed

lemma skip_space_comma_over:
  assumes "drop p input = sep @ rest" "list_all is_separator sep"
    "rest = [] \<or> \<not> is_separator (hd rest)"
  shows "skip_space_comma input p = p + length sep"
  by (simp add: skip_space_comma_takeWhile assms(1) takeWhile_separator_prefix[OF assms(2,3)])

lemma separated_tail:
  assumes "list_all is_separator sep" "sep = [] \<longrightarrow> rest = []"
  shows "sep @ rest = [] \<or> digit_val (hd (sep @ rest)) = 36"
proof (cases sep)
  case Nil
  then show ?thesis using assms(2) by simp
next
  case (Cons a as)
  then show ?thesis using assms(1) by (simp add: separator_no_digit)
qed

lemma parse_span_step:
  assumes d: "drop pos input =
      lead @ number_text n1 @ w1 @ CHR ''-'' # w2 @ number_text n2 @ sep @ rest"
    and lead: "list_all isspace lead"
    and n1: "number_ok n1" "number_value n1 \<le> 0x1FFFFFFF"
    and w: "list_all isspace w1" "list_all isspace w2"
    and n2: "number_ok n2" "number_value n2 \<le> 0x1FFFFFFF"
    and sep: "list_all is_separator sep" "sep = [] \<longrightarrow> rest = []"
    and rest: "rest = [] \<or> digit_val (hd rest) < 36"
  shows "parse_loop ops input pos s =
     parse_loop ops input
       (pos + length lead + length (number_text n1) + length w1 + 1 + length w2
          + length (number_text n2) + length sep)
       (snd (if number_value n1 \<le> 0x7FF \<and> number_value n2 \<le> 0x7FF
             then add_std_range ops s (of_nat (number_value n1)) (of_nat (number_value n2))
             else add_ext_range ops s (of_nat (number_value n1)) (of_nat (number_value n2))))"
proof -
  let ?L1 = "length (number_text n1)"
  let ?L2 = "length (number_text n2)"
  let ?r4 = "sep @ rest"
  let ?r3 = "number_text n2 @ ?r4"
  let ?r2 = "w2 @ ?r3"
  let ?r1 = "w1 @ CHR ''-'' # ?r2"
  obtain c cs where nt1: "number_text n1 = c # cs" and c: "digit_val c < 10"
    using number_text_head[OF n1(1)] by (cases "number_text n1") auto
  obtain e es where nt2: "number_text n2 = e # es" and e: "digit_val e < 10"
    using number_text_head[OF n2(1)] by (cases "number_text n2") auto
  have ne: "number_text n1 \<noteq> []" "number_text n2 \<noteq> []" by (simp_all add: nt1 nt2)
  have lt: "pos < length input"
    using d nt1 by (cases "pos < length input") auto
  let ?p1 = "pos + length lead"
  have p1: "skip_space input pos = ?p1"
  proof (rule skip_space_over[OF _ lead])
    show "drop pos input = lead @ number_text n1 @ ?r1" using d by simp
    show "number_text n1 @ ?r1 = [] \<or> \<not> isspace (hd (number_text n1 @ ?r1))"
      using digit_not_space[of c] c by (simp add: nt1)
  qed
  have d1: "drop ?p1 input = number_text n1 @ ?r1"
    using drop_more[OF d] by simp
  have lt1: "\<not> length input \<le> ?p1"
    using nth_is_hd_drop[of ?p1 input c "cs @ ?r1"] d1 nt1 by simp
  have tm1: "?r1 = [] \<or> digit_val (hd ?r1) = 36"
    using w(1) by (cases w1) (simp_all add: minus_facts space_no_digit)
  have st1: "strtoul (drop ?p1 input) =
      \<lparr>ul_value = number_value n1, ul_len = ?L1, ul_erange = False\<rparr>"
    unfolding d1 using n1(2) by (intro strtoul_number[OF n1(1) _ tm1]) (simp add: ULONG_MAX_def)
  have d2: "drop (?p1 + ?L1) input = w1 @ CHR ''-'' # ?r2"
    using drop_more[OF d1] by simp
  let ?p2 = "?p1 + ?L1 + length w1"
  have p2: "skip_space input (?p1 + ?L1) = ?p2"
    by (rule skip_space_over[OF d2 w(1)]) (simp add: minus_facts)
  have d3: "drop ?p2 input = CHR ''-'' # ?r2"
    using drop_more[OF d2] by simp
  have mn: "?p2 < length input \<and> input ! ?p2 = CHR ''-''"
    using nth_is_hd_drop[OF d3] .
  have d3': "drop (?p2 + Suc 0) input = w2 @ ?r3"
    using drop_more[of ?p2 input "[CHR ''-'']" ?r2] d3 by simp
  let ?p3 = "?p2 + Suc 0 + length w2"
  have p3: "skip_space input (?p2 + Suc 0) = ?p3"
  proof (rule skip_space_over[OF d3' w(2)])
    show "?r3 = [] \<or> \<not> isspace (hd ?r3)"
      using digit_not_space[of e] e by (simp add: nt2)
  qed
  have d4: "drop ?p3 input = number_text n2 @ ?r4"
    using drop_more[OF d3'] by simp
  have st2: "strtoul (drop ?p3 input) =
      \<lparr>ul_value = number_value n2, ul_len = ?L2, ul_erange = False\<rparr>"
    unfolding d4 using n2(2)
    by (intro strtoul_number[OF n2(1) _ separated_tail[OF sep]]) (simp add: ULONG_MAX_def)
  have d5: "drop (?p3 + ?L2) input = sep @ rest"
    using drop_more[OF d4] by simp
  have p4: "skip_space_comma input (?p3 + ?L2) = ?p3 + ?L2 + length sep"
  proof (rule skip_space_comma_over[OF d5 sep(1)])
    show "rest = [] \<or> \<not> is_separator (hd rest)"
      using rest digit_not_separator[of "hd rest"] by auto
  qed
  show ?thesis
    by (subst parse_loop.simps)
      (simp add: lt p1 lt1 st1 p2 mn p3 st2 p4 ne classify_value[OF n1(2)]
        classify_value[OF n2(2)] Let_def del: add_Suc_right)
qed

lemma token_text_head:
  "token_ok t \<Longrightarrow> token_text t \<noteq> [] \<and> digit_val (hd (token_text t)) < 36"
proof (cases t)
  case (Single n)
  assume "token_ok t"
  with Single show ?thesis using number_text_head[of n] by auto
next
  case (Span n1 w1 w2 n2)
  assume "token_ok t"
  with Span show ?thesis using number_text_head[of n1] by auto
qed

lemma tokens_text_head:
  "tokens_ok ts \<Longrightarrow> tokens_text ts = [] \<or> digit_val (hd (tokens_text ts)) < 36"
proof (cases ts)
  case Nil
  then show ?thesis by simp
next
  case (Cons p ps)
  assume "tokens_ok ts"
  with Cons show ?thesis using token_text_head[of "fst p"] by (cases p) auto
qed

lemma tokens_text_empty: "tokens_ok ts \<Longrightarrow> tokens_text ts = [] \<Longrightarrow> ts = []"
proof (cases ts)
  case Nil
  then show ?thesis by simp
next
  case (Cons p ps)
  assume "tokens_ok ts" "tokens_text ts = []"
  with Cons show ?thesis using token_text_head[of "fst p"] by (cases p) auto
qed

lemma recording_ops_snd:
  "snd (add_std_id (recording_ops e) l i) = l @ [StdId i]"
  "snd (add_ext_id (recording_ops e) l i) = l @ [ExtId i]"
  "snd (add_std_range (recording_ops e) l a b) = l @ [StdRange a b]"
  "snd (add_ext_range (recording_ops e) l a b) = l @ [ExtRange a b]"
  by (simp_all add: recording_ops_def)

lemma parse_loop_tokens:
  "tokens_ok ts \<Longrightarrow> list_all isspace lead \<Longrightarrow> drop pos input = lead @ tokens_text ts \<Longrightarrow>
   parse_loop (recording_ops err) input pos log
     = (True, log @ map (\<lambda>p. token_directive (fst p)) ts)"
proof (induction ts arbitrary: pos log lead)
  case Nil
  then have d: "drop pos input = lead" by simp
  show ?case
  proof (cases "pos < length input")
    case False
    then show ?thesis by (subst parse_loop.simps) simp
  next
    case True
    have "skip_space input pos = pos + length lead"
      using skip_space_over[of pos input lead "[]"] d Nil.prems(2) by simp
    moreover have "length lead = length input - pos"
      using arg_cong[OF d, of length] by simp
    ultimately have "length input \<le> skip_space input pos" using True by simp
    then show ?thesis
      using True by (subst parse_loop.simps) (simp add: Let_def)
  qed
next
  case (Cons p ts)
  obtain t sep where p: "p = (t, sep)" by (cases p)
  from Cons.prems(1) p have ok: "token_ok t" "list_all is_separator sep"
    "sep = [] \<longrightarrow> ts = []" "tokens_ok ts"
    by simp_all
  let ?rest = "tokens_text ts"
  have rest: "?rest = [] \<or> digit_val (hd ?rest) < 36"
    using tokens_text_head[OF ok(4)] .
  have se: "sep = [] \<longrightarrow> ?rest = []" using ok(3) by auto
  show ?case
  proof (cases t)
    case (Single n)
    with ok(1) have n: "number_ok n" "number_value n \<le> 0x1FFFFFFF" by simp_all
    have d: "drop pos input = lead @ number_text n @ sep @ ?rest"
      using Cons.prems(3) p Single by simp
    let ?pos = "pos + length lead + length (number_text n) + length sep"
    have d': "drop ?pos input = [] @ ?rest"
      using drop_more[of pos input "lead @ number_text n @ sep" ?rest] d
      by (simp add: add.assoc)
    note step = parse_single_step[OF d Cons.prems(2) n ok(2) se rest,
        of "recording_ops err" log]
    show ?thesis
      unfolding step
      by (subst Cons.IH[OF ok(4) _ d']) (simp_all add: p Single recording_ops_snd)
  next
    case (Span n1 w1 w2 n2)
    with ok(1) have n: "number_ok n1" "number_value n1 \<le> 0x1FFFFFFF"
      "list_all isspace w1" "list_all isspace w2"
      "number_ok n2" "number_value n2 \<le> 0x1FFFFFFF" by simp_all
    have d: "drop pos input =
        lead @ number_text n1 @ w1 @ CHR ''-'' # w2 @ number_text n2 @ sep @ ?rest"
      using Cons.prems(3) p Span by simp
    let ?pos = "pos + length lead + length (number_text n1) + length w1 + 1 + length w2
          + length (number_text n2) + length sep"
    have d': "drop ?pos input = [] @ ?rest"
      using drop_more[of pos input
          "lead @ number_text n1 @ w1 @ CHR ''-'' # w2 @ number_text n2 @ sep" ?rest] d
      by (simp add: add.assoc)
    note step = parse_span_step[OF d Cons.prems(2) n ok(2) se rest,
        of "recording_ops err" log]
    show ?thesis
      unfolding step
      by (subst Cons.IH[OF ok(4) _ d']) (simp_all add: p Span recording_ops_snd)
  qed
qed

lemma parse_filter_text:
  assumes "filter_text_ok lead ts"
  shows "parse (recording_ops err) (filter_text lead ts) log
     = (True, log @ map (\<lambda>p. token_directive (fst p)) ts)"
proof (cases "filter_text lead ts = []")
  case True
  then have "tokens_text ts = []" by (simp add: filter_text_def)
  then have "ts = []" using assms tokens_text_empty by (simp add: filter_text_ok_def)
  then show ?thesis using True by (simp add: parse_def)
next
  case False
  have "parse_loop (recording_ops err) (filter_text lead ts) 0 log
     = (True, log @ map (\<lambda>p. token_directive (fst p)) ts)"
    using assms
    by (intro parse_loop_tokens[where lead = lead]) (simp_all add: filter_text_ok_def filter_text_def)
  then show ?thesis using False by (simp add: parse_def)
qed


text \<open>
  C9, as the specification states it: \<^verbatim>\<open>parse\<close> returns true for every input whose tokens
  all classify as standard or extended, whatever the builder returns. The code does
  otherwise when a comma comes before the first token: \<^verbatim>\<open>"0x100"\<close> is one standard
  identifier and parses, but on \<^verbatim>\<open>",0x100"\<close> \<^verbatim>\<open>strtoul\<close> meets the comma, converts nothing,
  and \<^verbatim>\<open>parse\<close> returns false without a call of the builder.
\<close>

theorem parse_leading_comma_counterexample:
  "parse (recording_ops CANFILTER_SUCCESS) ''0x100'' [] = (True, [StdId 0x100]) \<and>
   parse (recording_ops CANFILTER_SUCCESS) '',0x100'' [] = (False, [])"
  by (simp add: parse_eval)

text \<open>
  C9, amended. \<^verbatim>\<open>parse\<close> returns true for every input made of white space, then tokens,
  each followed by white space and commas (at least one such character between two
  tokens), where a token is a number or two numbers around \<^verbatim>\<open>-\<close>, a number is a decimal,
  octal or hexadecimal literal, and no number is beyond \<open>0x1FFFFFFF\<close>, so that every token
  classifies as standard or extended. This holds regardless of the result codes of the
  builder: for every builder and builder state \<^verbatim>\<open>parse\<close> returns true, and a builder that
  answers every call with the same code, \<^verbatim>\<open>CANFILTER_ERROR_FULL\<close> or
  \<^verbatim>\<open>CANFILTER_ERROR_PARAM\<close> as well as \<^verbatim>\<open>CANFILTER_SUCCESS\<close>, is sent the directive of every
  token, in order.
\<close>

theorem parse_accepts_filter_text:
  "filter_text_ok lead ts \<longrightarrow>
     fst (parse ops (filter_text lead ts) s) \<and>
     parse (recording_ops err) (filter_text lead ts) log
       = (True, log @ map (\<lambda>p. token_directive (fst p)) ts)"
proof (intro impI conjI)
  assume ok: "filter_text_ok lead ts"
  show r: "parse (recording_ops err) (filter_text lead ts) log
       = (True, log @ map (\<lambda>p. token_directive (fst p)) ts)"
    using ok by (rule parse_filter_text)
  have "fst (parse ops (filter_text lead ts) s)
      = fst (parse (recording_ops err) (filter_text lead ts) log)"
    by (simp add: parse_def parse_loop_fst[of ops _ 0 s "recording_ops err" log])
  then show "fst (parse ops (filter_text lead ts) s)" by (simp add: r)
qed

theorem parse_accepts_filter_text_witness:
  "filter_text_ok '' ''
     [(Span (Hexadecimal CHR ''x'' ''100'') [] '' '' (Hexadecimal CHR ''X'' ''2fF''), '', ''),
      (Single (Decimal ''2048''), '' ,''), (Single (Octal ''17''), [])] \<and>
   filter_text '' ''
     [(Span (Hexadecimal CHR ''x'' ''100'') [] '' '' (Hexadecimal CHR ''X'' ''2fF''), '', ''),
      (Single (Decimal ''2048''), '' ,''), (Single (Octal ''17''), [])]
     = '' 0x100- 0X2fF, 2048 ,017'' \<and>
   fst (bxcan_add_std_range bxcan_f0 bxcan_f0_full 0x100 0x2FF) = CANFILTER_ERROR_FULL \<and>
   fst (parse (bxcan_ops bxcan_f0) '' 0x100- 0X2fF, 2048 ,017'' bxcan_f0_full) \<and>
   parse (recording_ops CANFILTER_ERROR_FULL) '' 0x100- 0X2fF, 2048 ,017'' []
     = (True, [StdRange 0x100 0x2FF, ExtId 2048, StdId 15])"
proof -
  let ?ts = "[(Span (Hexadecimal CHR ''x'' ''100'') [] '' '' (Hexadecimal CHR ''X'' ''2fF''), '', ''),
      (Single (Decimal ''2048''), '' ,''), (Single (Octal ''17''), [])]"
  have v: "digits_value 16 ''100'' = 0x100" "digits_value 16 ''2fF'' = 0x2FF"
    "digits_value 10 ''2048'' = 2048" "digits_value 8 ''17'' = 15"
    by (simp_all add: digits_value_def digit_val_def)
  have ok: "filter_text_ok '' '' ?ts"
    by (simp add: filter_text_ok_def v is_separator_def isspace_def digit_val_def)
  have t: "filter_text '' '' ?ts = '' 0x100- 0X2fF, 2048 ,017''"
    by (simp add: filter_text_def)
  note T = parse_accepts_filter_text[of "'' ''" ?ts, THEN mp, OF ok, unfolded t]
  have d: "map (\<lambda>p. token_directive (fst p)) ?ts = [StdRange 0x100 0x2FF, ExtId 2048, StdId 15]"
    by (simp add: v)
  show ?thesis
    using ok t full_range_example
      T[of "bxcan_ops bxcan_f0" bxcan_f0_full CANFILTER_ERROR_FULL "[]", THEN conjunct1]
      T[of "bxcan_ops bxcan_f0" bxcan_f0_full CANFILTER_ERROR_FULL "[]", THEN conjunct2]
    unfolding d by (intro conjI) simp_all
qed


section \<open>The orchestrator\<close>

lemma open_vid_pid_result:
  "fst (open_vid_pid env u vid pid serial) = env_open_vid_pid env vid pid serial"
  "handle_set (snd (open_vid_pid env u vid pid serial)) = env_open_vid_pid env vid pid serial"
  "transfers (snd (open_vid_pid env u vid pid serial)) = transfers u"
  by (simp_all add: open_vid_pid_def)

lemma hasHardwareFilter_result:
  assumes "handle_set u"
  shows "fst (hasHardwareFilter env u) =
      (fst (env_bt_const env) = 40 \<and> snd (env_bt_const env) AND GS_CAN_FEATURE_FILTER \<noteq> 0)"
    and "handle_set (snd (hasHardwareFilter env u))"
    and "transfers (snd (hasHardwareFilter env u)) = transfers u @ [GS_USB_BREQ_BT_CONST]"
  using assms by (simp_all add: hasHardwareFilter_def ensure_open_def Let_def)

lemma getFilterInfo_result:
  assumes "handle_set u"
  shows "fst (getFilterInfo env u) =
      (if fst (env_get_filter env) \<noteq> 4 then 0 else ucast (snd (env_get_filter env)))"
    and "handle_set (snd (getFilterInfo env u))"
    and "transfers (snd (getFilterInfo env u)) = transfers u @ [GS_USB_BREQ_GET_FILTER]"
  using assms by (simp_all add: getFilterInfo_def ensure_open_def Let_def)

lemma programFilter_result:
  assumes "handle_set u"
  shows "fst (programFilter env u config sz) = (env_set_filter env sz = sint sz)"
    and "transfers (snd (programFilter env u config sz))
           = transfers u @ [GS_USB_BREQ_SET_FILTER config sz]"
  using assms by (simp_all add: programFilter_def ensure_open_def Let_def)

lemma setHardwareFilter_early:
  assumes "env_driver_name env \<noteq> ''SocketCAN'' \<or> env_usb_info env = None \<or>
    (\<exists>vid pid serial. env_usb_info env = Some (vid, pid, serial) \<and>
        \<not> env_open_vid_pid env vid pid serial) \<or>
    fst (env_bt_const env) \<noteq> 40 \<or> snd (env_bt_const env) AND GS_CAN_FEATURE_FILTER = 0 \<or>
    new_filter (if fst (env_get_filter env) \<noteq> 4 then 0
                else ucast (snd (env_get_filter env))) = None \<or>
    (\<exists>f. new_filter (if fst (env_get_filter env) \<noteq> 4 then 0
                      else ucast (snd (env_get_filter env))) = Some f \<and>
         \<not> fst (filter_parse (snd (filter_begin f)) filter_def))"
  shows "\<not> fst (setHardwareFilter env filter_def) \<and>
         \<not> set_filter_attempted (snd (setHardwareFilter env filter_def))"
proof (cases "env_driver_name env = ''SocketCAN''")
  case False
  then show ?thesis
    by (simp add: setHardwareFilter_def set_filter_attempted_def usb_device_new_def)
next
  case drv: True
  show ?thesis
  proof (cases "env_usb_info env")
    case None
    then show ?thesis
      by (simp add: setHardwareFilter_def set_filter_attempted_def usb_device_new_def drv)
  next
    case (Some t)
    obtain vid pid serial where t: "t = (vid, pid, serial)" by (cases t) auto
    let ?o = "open_vid_pid env usb_device_new vid pid serial"
    show ?thesis
    proof (cases "env_open_vid_pid env vid pid serial")
      case False
      then show ?thesis
        by (simp add: setHardwareFilter_def set_filter_attempted_def usb_device_new_def drv
            Some t open_vid_pid_result Let_def)
    next
      case opn: True
      have ho: "handle_set (snd ?o)" "transfers (snd ?o) = []" "fst ?o"
        by (simp_all add: open_vid_pid_result opn usb_device_new_def)
      let ?h = "hasHardwareFilter env (snd ?o)"
      note hh = hasHardwareFilter_result[OF ho(1), of env]
      let ?i = "getFilterInfo env (snd ?h)"
      note ii = getFilterInfo_result[OF hh(2), of env]
      show ?thesis
      proof (cases "fst ?h")
        case False
        then show ?thesis
          by (simp add: setHardwareFilter_def set_filter_attempted_def drv Some t ho hh(3)
              Let_def)
      next
        case has: True
        show ?thesis
        proof (cases "new_filter (fst ?i)")
          case None
          then show ?thesis
            using has
            by (simp add: setHardwareFilter_def set_filter_attempted_def drv Some t ho hh(3)
                ii(3) Let_def)
        next
          case (Some f)
          from assms drv \<open>env_usb_info env = Some t\<close> t opn has hh(1) Some ii(1)
          have "\<not> fst (filter_parse (snd (filter_begin f)) filter_def)"
            by auto
          then show ?thesis
            using has Some
            by (simp add: setHardwareFilter_def set_filter_attempted_def drv
                \<open>env_usb_info env = Some t\<close> t ho hh(3) ii(3) Let_def)
        qed
      qed
    qed
  qed
qed

lemma setHardwareFilter_late:
  assumes "env_driver_name env = ''SocketCAN''"
    and "env_usb_info env = Some (vid, pid, serial)"
    and "env_open_vid_pid env vid pid serial"
    and "fst (env_bt_const env) = 40" "snd (env_bt_const env) AND GS_CAN_FEATURE_FILTER \<noteq> 0"
    and "new_filter (if fst (env_get_filter env) \<noteq> 4 then 0
                     else ucast (snd (env_get_filter env))) = Some f"
    and "fst (filter_parse (snd (filter_begin f)) filter_def)"
  shows "fst (setHardwareFilter env filter_def) =
    (env_set_filter env
        (get_hw_size (snd (filter_end (snd (filter_parse (snd (filter_begin f)) filter_def)))))
       = sint (get_hw_size (snd (filter_end (snd (filter_parse (snd (filter_begin f)) filter_def))))))"
    and "transfers (snd (setHardwareFilter env filter_def)) =
      [GS_USB_BREQ_BT_CONST, GS_USB_BREQ_GET_FILTER,
        GS_USB_BREQ_SET_FILTER
          (get_hw_config (snd (filter_end (snd (filter_parse (snd (filter_begin f)) filter_def)))))
          (get_hw_size (snd (filter_end (snd (filter_parse (snd (filter_begin f)) filter_def)))))]"
proof -
  let ?o = "open_vid_pid env usb_device_new vid pid serial"
  have ho: "handle_set (snd ?o)" "transfers (snd ?o) = []" "fst ?o"
    by (simp_all add: open_vid_pid_result assms(3) usb_device_new_def)
  let ?h = "hasHardwareFilter env (snd ?o)"
  note hh = hasHardwareFilter_result[OF ho(1), of env]
  let ?i = "getFilterInfo env (snd ?h)"
  note ii = getFilterInfo_result[OF hh(2), of env]
  have has: "fst ?h" using assms(4,5) by (simp add: hh(1))
  have nf: "new_filter (fst ?i) = Some f" using assms(6) by (simp add: ii(1))
  note pp = programFilter_result[OF ii(2), of env]
  show "fst (setHardwareFilter env filter_def) =
    (env_set_filter env
        (get_hw_size (snd (filter_end (snd (filter_parse (snd (filter_begin f)) filter_def)))))
       = sint (get_hw_size (snd (filter_end (snd (filter_parse (snd (filter_begin f)) filter_def))))))"
    using assms(7)
    by (simp add: setHardwareFilter_def assms(1,2) ho has nf pp(1) Let_def)
  show "transfers (snd (setHardwareFilter env filter_def)) =
      [GS_USB_BREQ_BT_CONST, GS_USB_BREQ_GET_FILTER,
        GS_USB_BREQ_SET_FILTER
          (get_hw_config (snd (filter_end (snd (filter_parse (snd (filter_begin f)) filter_def)))))
          (get_hw_size (snd (filter_end (snd (filter_parse (snd (filter_begin f)) filter_def)))))]"
    using assms(7)
    by (simp add: setHardwareFilter_def assms(1,2) ho has nf pp(2) ii(3) hh(3) Let_def)
qed

lemma ext_blocks_16:
  "ext_blocks 1 0xFFFF =
     [(1, 0x1FFFFFFF), (2, 0x1FFFFFFE), (4, 0x1FFFFFFC), (8, 0x1FFFFFF8), (0x10, 0x1FFFFFF0),
      (0x20, 0x1FFFFFE0), (0x40, 0x1FFFFFC0), (0x80, 0x1FFFFF80), (0x100, 0x1FFFFF00),
      (0x200, 0x1FFFFE00), (0x400, 0x1FFFFC00), (0x800, 0x1FFFF800), (0x1000, 0x1FFFF000),
      (0x2000, 0x1FFFE000), (0x4000, 0x1FFFC000), (0x8000, 0x1FFF8000)]"
  by (simp add: blocks_eval)

lemma ext_range_fills_banks:
  "fst (bxcan_add_ext_range bxcan_f0 (snd (bxcan_begin bxcan_f0 (bxcan_new bxcan_f0))) 1 0xFFFF)
     = CANFILTER_ERROR_FULL"
  "bank (snd (bxcan_add_ext_range bxcan_f0 (snd (bxcan_begin bxcan_f0 (bxcan_new bxcan_f0)))
       1 0xFFFF)) = 14"
  "ext_list_count (snd (bxcan_add_ext_range bxcan_f0
       (snd (bxcan_begin bxcan_f0 (bxcan_new bxcan_f0))) 1 0xFFFF)) = 1"
  "std_list_count (snd (bxcan_add_ext_range bxcan_f0
       (snd (bxcan_begin bxcan_f0 (bxcan_new bxcan_f0))) 1 0xFFFF)) = 0"
  "std_mask_count (snd (bxcan_add_ext_range bxcan_f0
       (snd (bxcan_begin bxcan_f0 (bxcan_new bxcan_f0))) 1 0xFFFF)) = 0"
proof -
  have m: "min (1::u32) 0xFFFF = 1" "max (1::u32) 0xFFFF = 0xFFFF" by simp_all
  have f: "bxcan_add_ext_range bxcan_f0 (snd (bxcan_begin bxcan_f0 (bxcan_new bxcan_f0))) 1 0xFFFF
      = bxcan_feed_ext bxcan_f0 (snd (bxcan_begin bxcan_f0 (bxcan_new bxcan_f0)))
          (ext_blocks 1 0xFFFF)"
    using bxcan_add_ext_range_feed[of 1 "0xFFFF" bxcan_f0] unfolding m
    by (simp add: max_ext_id_def)
  have n: "\<not> (14::u32) \<le> 1" by (simp add: word_le_nat_alt)
  show "fst (bxcan_add_ext_range bxcan_f0 (snd (bxcan_begin bxcan_f0 (bxcan_new bxcan_f0))) 1 0xFFFF)
     = CANFILTER_ERROR_FULL"
    "bank (snd (bxcan_add_ext_range bxcan_f0 (snd (bxcan_begin bxcan_f0 (bxcan_new bxcan_f0)))
       1 0xFFFF)) = 14"
    "ext_list_count (snd (bxcan_add_ext_range bxcan_f0
       (snd (bxcan_begin bxcan_f0 (bxcan_new bxcan_f0))) 1 0xFFFF)) = 1"
    "std_list_count (snd (bxcan_add_ext_range bxcan_f0
       (snd (bxcan_begin bxcan_f0 (bxcan_new bxcan_f0))) 1 0xFFFF)) = 0"
    "std_mask_count (snd (bxcan_add_ext_range bxcan_f0
       (snd (bxcan_begin bxcan_f0 (bxcan_new bxcan_f0))) 1 0xFFFF)) = 0"
    unfolding f ext_blocks_16
    by (simp_all add: bxcan_add_ext_list_def bxcan_add_ext_mask_def bxcan_emit_ext_list_def
        bxcan_emit_ext_mask_def write_bank_def bxcan_begin_def bxcan_new_def bxcan_hw_t_def
        bxcan_f0_def max_ext_id_def Let_def n)
qed

lemma parse_one_ext_range:
  "parse ops ''1-0xFFFF'' s = (True, snd (add_ext_range ops s 1 0xFFFF))"
  by (simp add: parse_def parse_loop.simps skip_space.simps skip_space_comma.simps strtoul_eval
      max_std_id_def max_ext_id_def)

lemma parse_one_std_id:
  "parse ops ''0x100'' s = (True, snd (add_std_id ops s 0x100))"
  by (simp add: parse_def parse_loop.simps skip_space.simps skip_space_comma.simps strtoul_eval
      max_std_id_def max_ext_id_def)

lemma end_on_full_bxcan:
  assumes "bank s = 14" "ext_list_count s = 1" "std_list_count s = 0" "std_mask_count s = 0"
  shows "fst (bxcan_end bxcan_f0 s) = CANFILTER_ERROR_FULL"
  using assms by (simp add: bxcan_end_def bxcan_emit_ext_list_def bxcan_f0_def Let_def)

lemma env_ok_fields:
  "env_driver_name (env_ok d) = ''SocketCAN''"
  "env_usb_info (env_ok d) = Some (0x1D50, 0x606F, [])"
  "env_open_vid_pid (env_ok d) vid pid serial"
  "fst (env_bt_const (env_ok d)) = 40"
  "snd (env_bt_const (env_ok d)) AND GS_CAN_FEATURE_FILTER \<noteq> 0"
  "env_get_filter (env_ok d) = (4, d)"
  "env_set_filter (env_ok d) sz = sint sz"
  by (simp_all add: env_ok_def GS_CAN_FEATURE_FILTER_def)

subsection \<open>The other steps\<close>

text \<open>
  The failure of interface resolution (the driver is not SocketCAN, or no USB device is
  found for the interface), of the USB open, of the capability probe (a short \<^verbatim>\<open>BT_CONST\<close>
  reply, or the hardware-filter feature bit clear), of the filter-identity selection, or of
  \<^verbatim>\<open>parse\<close> makes \<^verbatim>\<open>setHardwareFilter\<close> return false, and no \<^verbatim>\<open>SET_FILTER\<close> transfer is
  attempted. When none of these fails, \<^verbatim>\<open>SET_FILTER\<close> is attempted once, after \<^verbatim>\<open>BT_CONST\<close>
  and \<^verbatim>\<open>GET_FILTER\<close>, and \<^verbatim>\<open>setHardwareFilter\<close> returns false when the transfer fails and
  true otherwise.
\<close>

lemma setHardwareFilter_steps:
  "(env_driver_name env \<noteq> ''SocketCAN'' \<or> env_usb_info env = None \<or>
    (\<exists>vid pid serial. env_usb_info env = Some (vid, pid, serial) \<and>
        \<not> env_open_vid_pid env vid pid serial) \<or>
    fst (env_bt_const env) \<noteq> 40 \<or> snd (env_bt_const env) AND GS_CAN_FEATURE_FILTER = 0 \<or>
    new_filter (if fst (env_get_filter env) \<noteq> 4 then 0
                else ucast (snd (env_get_filter env))) = None \<or>
    (\<exists>f. new_filter (if fst (env_get_filter env) \<noteq> 4 then 0
                      else ucast (snd (env_get_filter env))) = Some f \<and>
         \<not> fst (filter_parse (snd (filter_begin f)) filter_def))
    \<longrightarrow> \<not> fst (setHardwareFilter env filter_def) \<and>
        \<not> set_filter_attempted (snd (setHardwareFilter env filter_def))) \<and>
   (env_driver_name env = ''SocketCAN'' \<and> env_usb_info env = Some (vid, pid, serial) \<and>
    env_open_vid_pid env vid pid serial \<and>
    fst (env_bt_const env) = 40 \<and> snd (env_bt_const env) AND GS_CAN_FEATURE_FILTER \<noteq> 0 \<and>
    new_filter (if fst (env_get_filter env) \<noteq> 4 then 0
                else ucast (snd (env_get_filter env))) = Some f \<and>
    fst (filter_parse (snd (filter_begin f)) filter_def)
    \<longrightarrow> fst (setHardwareFilter env filter_def) =
          (env_set_filter env
             (get_hw_size (snd (filter_end (snd (filter_parse (snd (filter_begin f)) filter_def)))))
           = sint (get_hw_size
               (snd (filter_end (snd (filter_parse (snd (filter_begin f)) filter_def)))))) \<and>
        transfers (snd (setHardwareFilter env filter_def)) =
          [GS_USB_BREQ_BT_CONST, GS_USB_BREQ_GET_FILTER,
           GS_USB_BREQ_SET_FILTER
             (get_hw_config
                (snd (filter_end (snd (filter_parse (snd (filter_begin f)) filter_def)))))
             (get_hw_size
                (snd (filter_end (snd (filter_parse (snd (filter_begin f)) filter_def)))))])"
proof (intro conjI impI)
  assume a: "env_driver_name env \<noteq> ''SocketCAN'' \<or> env_usb_info env = None \<or>
    (\<exists>vid pid serial. env_usb_info env = Some (vid, pid, serial) \<and>
        \<not> env_open_vid_pid env vid pid serial) \<or>
    fst (env_bt_const env) \<noteq> 40 \<or> snd (env_bt_const env) AND GS_CAN_FEATURE_FILTER = 0 \<or>
    new_filter (if fst (env_get_filter env) \<noteq> 4 then 0
                else ucast (snd (env_get_filter env))) = None \<or>
    (\<exists>f. new_filter (if fst (env_get_filter env) \<noteq> 4 then 0
                      else ucast (snd (env_get_filter env))) = Some f \<and>
         \<not> fst (filter_parse (snd (filter_begin f)) filter_def))"
  show "\<not> fst (setHardwareFilter env filter_def)"
    using setHardwareFilter_early[OF a] by simp
  show "\<not> set_filter_attempted (snd (setHardwareFilter env filter_def))"
    using setHardwareFilter_early[OF a] by simp
next
  assume b: "env_driver_name env = ''SocketCAN'' \<and> env_usb_info env = Some (vid, pid, serial) \<and>
    env_open_vid_pid env vid pid serial \<and>
    fst (env_bt_const env) = 40 \<and> snd (env_bt_const env) AND GS_CAN_FEATURE_FILTER \<noteq> 0 \<and>
    new_filter (if fst (env_get_filter env) \<noteq> 4 then 0
                else ucast (snd (env_get_filter env))) = Some f \<and>
    fst (filter_parse (snd (filter_begin f)) filter_def)"
  then have c: "env_driver_name env = ''SocketCAN''" "env_usb_info env = Some (vid, pid, serial)"
    "env_open_vid_pid env vid pid serial" "fst (env_bt_const env) = 40"
    "snd (env_bt_const env) AND GS_CAN_FEATURE_FILTER \<noteq> 0"
    "new_filter (if fst (env_get_filter env) \<noteq> 4 then 0
                else ucast (snd (env_get_filter env))) = Some f"
    "fst (filter_parse (snd (filter_begin f)) filter_def)"
    by simp_all
  note L = setHardwareFilter_late[OF c]
  show "fst (setHardwareFilter env filter_def) =
          (env_set_filter env
             (get_hw_size (snd (filter_end (snd (filter_parse (snd (filter_begin f)) filter_def)))))
           = sint (get_hw_size
               (snd (filter_end (snd (filter_parse (snd (filter_begin f)) filter_def))))))"
    by (rule L(1))
  show "transfers (snd (setHardwareFilter env filter_def)) =
          [GS_USB_BREQ_BT_CONST, GS_USB_BREQ_GET_FILTER,
           GS_USB_BREQ_SET_FILTER
             (get_hw_config
                (snd (filter_end (snd (filter_parse (snd (filter_begin f)) filter_def)))))
             (get_hw_size
                (snd (filter_end (snd (filter_parse (snd (filter_begin f)) filter_def)))))]"
    by (rule L(2))
qed

lemma setHardwareFilter_steps_example:
  "snd (env_bt_const env_no_feature) AND GS_CAN_FEATURE_FILTER = 0 \<and>
   \<not> fst (setHardwareFilter env_no_feature ''0x100'') \<and>
   \<not> set_filter_attempted (snd (setHardwareFilter env_no_feature ''0x100'')) \<and>
   fst (setHardwareFilter (env_ok 3) ''0x100'') \<and>
   transfers (snd (setHardwareFilter (env_ok 3) ''0x100'')) =
     [GS_USB_BREQ_BT_CONST, GS_USB_BREQ_GET_FILTER,
      GS_USB_BREQ_SET_FILTER
        (Fdcan_image (fd_hw_config (snd (fdcan_end fdcan_g0 fdcan_pending)))) 180]"
proof -
  let ?f = "Fdcan fdcan_g0 (fdcan_new fdcan_g0)"
  have z: "snd (env_bt_const env_no_feature) AND GS_CAN_FEATURE_FILTER = 0"
    by (simp add: env_no_feature_def)
  have n: "\<not> fst (setHardwareFilter env_no_feature ''0x100'') \<and>
      \<not> set_filter_attempted (snd (setHardwareFilter env_no_feature ''0x100''))"
    by (rule setHardwareFilter_steps[where env = env_no_feature and filter_def = "''0x100''",
          THEN conjunct1, THEN mp]) (simp add: z)
  have p: "filter_parse (snd (filter_begin ?f)) ''0x100'' = (True, Fdcan fdcan_g0 fdcan_pending)"
    by (simp add: parse_one_std_id fdcan_ops_def fdcan_pending_def)
  have h: "env_driver_name (env_ok 3) = ''SocketCAN'' \<and>
      env_usb_info (env_ok 3) = Some (0x1D50, 0x606F, []) \<and>
      env_open_vid_pid (env_ok 3) 0x1D50 0x606F [] \<and>
      fst (env_bt_const (env_ok 3)) = 40 \<and>
      snd (env_bt_const (env_ok 3)) AND GS_CAN_FEATURE_FILTER \<noteq> 0 \<and>
      new_filter (if fst (env_get_filter (env_ok 3)) \<noteq> 4 then 0
                  else ucast (snd (env_get_filter (env_ok 3)))) = Some ?f \<and>
      fst (filter_parse (snd (filter_begin ?f)) ''0x100'')"
    unfolding p
    by (simp add: env_ok_fields new_filter_def CANFILTER_DEV_BXCAN_F0_def
        CANFILTER_DEV_BXCAN_F4_def CANFILTER_DEV_FDCAN_G0_def)
  note T = setHardwareFilter_steps[where env = "env_ok 3" and filter_def = "''0x100''"
      and vid = "0x1D50" and pid = "0x606F" and serial = "[]" and f = ?f,
      THEN conjunct2, THEN mp, OF h]
  have r: "fst (setHardwareFilter (env_ok 3) ''0x100'')"
    using T[THEN conjunct1] by (simp add: env_ok_fields)
  have t: "transfers (snd (setHardwareFilter (env_ok 3) ''0x100'')) =
     [GS_USB_BREQ_BT_CONST, GS_USB_BREQ_GET_FILTER,
      GS_USB_BREQ_SET_FILTER
        (Fdcan_image (fd_hw_config (snd (fdcan_end fdcan_g0 fdcan_pending)))) 180]"
    using T[THEN conjunct2] unfolding p by (simp add: fdcan_g0_def)
  show ?thesis using z n r t by (intro conjI) simp_all
qed

subsection \<open>A failing \<^verbatim>\<open>end()\<close>\<close>

text \<open>
  C8. The specification has every step of \<^verbatim>\<open>setHardwareFilter\<close>, \<^verbatim>\<open>end\<close> among them,
  abort the operation with false when it fails, and no \<^verbatim>\<open>SET_FILTER\<close> attempted after a
  failed step. The code checks every other step, but calls \<^verbatim>\<open>filter->end()\<close> as a statement
  and drops its result. This theorem runs the code at an input where that shows: on a
  bxCAN-14 device where everything outside the filter object succeeds, the filter text
  \<^verbatim>\<open>"1-0xFFFF"\<close> parses, its sixteen blocks use up the fourteen banks and leave one
  identifier pending, \<^verbatim>\<open>end()\<close> returns \<^verbatim>\<open>CANFILTER_ERROR_FULL\<close>, and yet \<^verbatim>\<open>SET_FILTER\<close> is
  sent and \<^verbatim>\<open>setHardwareFilter\<close> returns true.
\<close>

theorem end_failure_not_reported:
  "new_filter (ucast (snd (env_get_filter (env_ok 1)))) = Some (Bxcan bxcan_f0 (bxcan_new bxcan_f0)) \<and>
   fst (filter_parse (snd (filter_begin (Bxcan bxcan_f0 (bxcan_new bxcan_f0)))) ''1-0xFFFF'') \<and>
   fst (filter_end (snd (filter_parse (snd (filter_begin (Bxcan bxcan_f0 (bxcan_new bxcan_f0))))
          ''1-0xFFFF''))) = CANFILTER_ERROR_FULL \<and>
   fst (setHardwareFilter (env_ok 1) ''1-0xFFFF'') \<and>
   set_filter_attempted (snd (setHardwareFilter (env_ok 1) ''1-0xFFFF''))"
proof -
  let ?f = "Bxcan bxcan_f0 (bxcan_new bxcan_f0)"
  have nf: "new_filter (ucast (snd (env_get_filter (env_ok 1)))) = Some ?f"
    by (simp add: env_ok_fields new_filter_def CANFILTER_DEV_BXCAN_F0_def)
  have p: "filter_parse (snd (filter_begin ?f)) ''1-0xFFFF'' =
      (True, Bxcan bxcan_f0 (snd (bxcan_add_ext_range bxcan_f0
          (snd (bxcan_begin bxcan_f0 (bxcan_new bxcan_f0))) 1 0xFFFF)))"
    by (simp add: parse_one_ext_range bxcan_ops_def)
  have e: "fst (filter_end (snd (filter_parse (snd (filter_begin ?f)) ''1-0xFFFF'')))
      = CANFILTER_ERROR_FULL"
    unfolding p by (simp add: end_on_full_bxcan ext_range_fills_banks)
  have nf': "new_filter (if fst (env_get_filter (env_ok 1)) \<noteq> 4 then 0
                     else ucast (snd (env_get_filter (env_ok 1)))) = Some ?f"
    using nf by (simp add: env_ok_fields)
  have pf: "fst (filter_parse (snd (filter_begin ?f)) ''1-0xFFFF'')"
    unfolding p by simp
  note L = setHardwareFilter_late[OF env_ok_fields(1) env_ok_fields(2) env_ok_fields(3)
      env_ok_fields(4) env_ok_fields(5) nf' pf]
  have r: "fst (setHardwareFilter (env_ok 1) ''1-0xFFFF'')"
    unfolding L(1) by (rule env_ok_fields(7))
  have a: "set_filter_attempted (snd (setHardwareFilter (env_ok 1) ''1-0xFFFF''))"
    unfolding set_filter_attempted_def L(2) by simp
  show ?thesis using nf pf e r a by (intro conjI)
qed


section \<open>What the banks hold\<close>

subsection \<open>Reading a written bank\<close>

lemma and_bit_test: "((x::u32) AND push_bit i 1 = 0) = (\<not> bit x i)"
proof
  assume a: "x AND push_bit i 1 = 0"
  show "\<not> bit x i"
  proof
    assume b: "bit x i"
    then have "i < 32" using bit_imp_le_length[of x i] by simp
    with b have "bit (x AND push_bit i 1) i" by (simp add: bit_simps)
    with a show False by simp
  qed
next
  assume "\<not> bit x i"
  then show "x AND push_bit i 1 = 0"
    by (intro bit_word_eqI) (auto simp: bit_simps)
qed

lemma bit_set_bank: "bit ((x::u32) OR push_bit b 1) i = (bit x i \<or> (i = b \<and> i < 32))"
  by (auto simp: bit_simps)

lemma bit_clear_bank: "bit ((x::u32) AND NOT (push_bit b 1)) i = (bit x i \<and> i \<noteq> b)"
  by (auto simp: bit_simps dest: bit_imp_le_length)

lemma std_id_bits: "(a::u32) \<le> max_std_id \<Longrightarrow> bit a n \<Longrightarrow> n < 11"
  using le_mask_bit[of 11 a n] by (simp add: max_std_id_def mask_eq_exp_minus_1)

lemma ext_id_bits: "(a::u32) \<le> max_ext_id \<Longrightarrow> bit a n \<Longrightarrow> n < 29"
  using le_mask_bit[of 29 a n] by (simp add: max_ext_id_def mask_eq_exp_minus_1)

lemma max_id_masks: "max_std_id = mask 11" "max_ext_id = mask 29"
  by (simp_all add: max_std_id_def max_ext_id_def mask_eq_exp_minus_1)

lemma decode_std_pack:
  assumes "a \<le> max_std_id" "b \<le> max_std_id"
  shows "drop_bit 5 (push_bit 21 b OR push_bit 5 a) AND max_std_id = a"
    and "drop_bit 21 (push_bit 21 b OR push_bit 5 a) AND max_std_id = b"
proof -
  have A: "bit a m \<Longrightarrow> m < 11" for m using std_id_bits[OF assms(1)] .
  have B: "bit b m \<Longrightarrow> m < 11" for m using std_id_bits[OF assms(2)] .
  show "drop_bit 5 (push_bit 21 b OR push_bit 5 a) AND max_std_id = a"
    unfolding max_id_masks
  proof (rule bit_word_eqI)
    fix n
    show "bit (drop_bit 5 (push_bit 21 b OR push_bit 5 a) AND mask 11) n = bit a n"
      using A[of n] B[of "n - 16"] by (auto simp: bit_simps)
  qed
  show "drop_bit 21 (push_bit 21 b OR push_bit 5 a) AND max_std_id = b"
    unfolding max_id_masks
  proof (rule bit_word_eqI)
    fix n
    show "bit (drop_bit 21 (push_bit 21 b OR push_bit 5 a) AND mask 11) n = bit b n"
      using A[of "16 + n"] B[of n] by (auto simp: bit_simps)
  qed
qed

lemma decode_ext_pack:
  assumes "a \<le> max_ext_id"
  shows "drop_bit 3 (push_bit 3 a OR push_bit 2 1) AND max_ext_id = a"
    and "drop_bit 3 (push_bit 3 a) AND max_ext_id = a"
proof -
  have A: "bit a m \<Longrightarrow> m < 29" for m using ext_id_bits[OF assms(1)] .
  show "drop_bit 3 (push_bit 3 a OR push_bit 2 1) AND max_ext_id = a"
    unfolding max_id_masks
  proof (rule bit_word_eqI)
    fix n
    show "bit (drop_bit 3 (push_bit 3 a OR push_bit 2 1) AND mask 29) n = bit a n"
      using A[of n] by (auto simp: bit_simps)
  qed
  show "drop_bit 3 (push_bit 3 a) AND max_ext_id = a"
    unfolding max_id_masks
  proof (rule bit_word_eqI)
    fix n
    show "bit (drop_bit 3 (push_bit 3 a) AND mask 29) n = bit a n"
      using A[of n] by (auto simp: bit_simps)
  qed
qed

lemma mask_interval_end: "((base AND msk) OR NOT msk) AND mx = (base OR NOT msk) AND (mx::u32)"
  by (auto intro!: bit_word_eqI simp: bit_simps)

lemma and_bit_test_pow: "((x::u32) AND 2 ^ i = 0) = (\<not> bit x i)"
  using and_bit_test[of x i] by (simp add: push_bit_of_1)

lemma bit_set_bank_pow: "bit ((x::u32) OR 2 ^ b) i = (bit x i \<or> (i = b \<and> i < 32))"
  using bit_set_bank[of x b i] by (simp add: push_bit_of_1)

lemma bit_clear_bank_pow: "bit ((x::u32) AND NOT (2 ^ b)) i = (bit x i \<and> i \<noteq> b)"
  using bit_clear_bank[of x b i] by (simp add: push_bit_of_1)

lemma debug_print_set:
  "set (debug_print cfg hw) = {l. \<exists>i<unat (max_banks cfg). debug_print_bank hw i = Some l}"
  by (force simp: debug_print_def List.map_filter_def)

lemma write_bank_print:
  assumes ok: "bxcan_image_ok cfg s" and lt: "unat (bank s) < unat (max_banks cfg)"
    and m: "unat (max_banks cfg) \<le> 32"
  shows "set (debug_print cfg (hw_config (write_bank s v1 v2 sc lm)))
     = insert (print_bank sc lm v1 v2) (set (debug_print cfg (hw_config s)))"
proof -
  let ?b = "unat (bank s)"
  let ?hw = "hw_config s"
  let ?hw' = "hw_config (write_bank s v1 v2 sc lm)"
  have b32: "?b < 32" using lt m by simp
  have len: "?b < length (fr1 ?hw)" "?b < length (fr2 ?hw)"
    using ok lt by (simp_all add: bxcan_image_ok_def)
  have inactive: "\<not> bit (fa1r ?hw) ?b"
    using ok b32 by (simp add: bxcan_image_ok_def bxcan_image_inv_def)
  have old: "debug_print_bank ?hw ?b = None"
    using inactive by (simp add: debug_print_bank_def and_bit_test and_bit_test_pow)
  have new: "debug_print_bank ?hw' ?b = Some (print_bank sc lm v1 v2)"
    using b32 len
    by (simp add: debug_print_bank_def write_bank_def Let_def and_bit_test bit_set_bank
        bit_clear_bank and_bit_test_pow bit_set_bank_pow bit_clear_bank_pow)
  have other: "debug_print_bank ?hw' i = debug_print_bank ?hw i" if "i \<noteq> ?b" for i
    using that
    by (simp add: debug_print_bank_def write_bank_def Let_def and_bit_test bit_set_bank
        bit_clear_bank and_bit_test_pow bit_set_bank_pow bit_clear_bank_pow)
  show ?thesis
  proof (rule set_eqI)
    fix l
    show "l \<in> set (debug_print cfg ?hw') \<longleftrightarrow>
        l \<in> insert (print_bank sc lm v1 v2) (set (debug_print cfg ?hw))"
    proof
      assume "l \<in> set (debug_print cfg ?hw')"
      then obtain i where i: "i < unat (max_banks cfg)" "debug_print_bank ?hw' i = Some l"
        by (auto simp: debug_print_set)
      show "l \<in> insert (print_bank sc lm v1 v2) (set (debug_print cfg ?hw))"
      proof (cases "i = ?b")
        case True
        with i new show ?thesis by simp
      next
        case False
        with i other[OF False] show ?thesis by (auto simp: debug_print_set)
      qed
    next
      assume "l \<in> insert (print_bank sc lm v1 v2) (set (debug_print cfg ?hw))"
      then consider "l = print_bank sc lm v1 v2"
        | i where "i < unat (max_banks cfg)" "debug_print_bank ?hw i = Some l"
        by (auto simp: debug_print_set)
      then show "l \<in> set (debug_print cfg ?hw')"
      proof cases
        case 1
        with new lt show ?thesis by (auto simp: debug_print_set)
      next
        case 2
        with old have "i \<noteq> ?b" by auto
        with 2 other[of i] show ?thesis by (auto simp: debug_print_set)
      qed
    qed
  qed
qed

lemma write_bank_ids:
  assumes "bxcan_image_ok cfg s" "unat (bank s) < unat (max_banks cfg)"
    "unat (max_banks cfg) \<le> 32"
  shows "image_std_ids cfg (hw_config (write_bank s v1 v2 sc lm))
      = line_std_ids (print_bank sc lm v1 v2) \<union> image_std_ids cfg (hw_config s)"
    and "image_ext_ids cfg (hw_config (write_bank s v1 v2 sc lm))
      = line_ext_ids (print_bank sc lm v1 v2) \<union> image_ext_ids cfg (hw_config s)"
  by (simp_all add: image_std_ids_def image_ext_ids_def write_bank_print[OF assms])

lemma print_bank_lines:
  "i1 \<le> max_std_id \<Longrightarrow> i2 \<le> max_std_id \<Longrightarrow> i3 \<le> max_std_id \<Longrightarrow> i4 \<le> max_std_id \<Longrightarrow>
   print_bank False True (push_bit 21 i2 OR push_bit 5 i1) (push_bit 21 i4 OR push_bit 5 i3)
     = Std_list_line i1 i2 i3 i4"
  "i1 \<le> max_std_id \<Longrightarrow> m1 \<le> max_std_id \<Longrightarrow> i3 \<le> max_std_id \<Longrightarrow> m2 \<le> max_std_id \<Longrightarrow>
   print_bank False False (push_bit 21 m1 OR push_bit 5 i1) (push_bit 21 m2 OR push_bit 5 i3)
     = Std_mask_line i1 ((i1 OR NOT m1) AND max_std_id) i3 ((i3 OR NOT m2) AND max_std_id)"
  "e1 \<le> max_ext_id \<Longrightarrow> e2 \<le> max_ext_id \<Longrightarrow>
   print_bank True True (push_bit 3 e1 OR push_bit 2 1) (push_bit 3 e2 OR push_bit 2 1)
     = Ext_list_line e1 e2"
  "e1 \<le> max_ext_id \<Longrightarrow> em \<le> max_ext_id \<Longrightarrow>
   print_bank True False (push_bit 3 e1 OR push_bit 2 1) (push_bit 3 em)
     = Ext_mask_line (e1 AND em) ((e1 OR NOT em) AND max_ext_id)"
  unfolding print_bank_def Let_def
  by (simp_all only: decode_std_pack decode_ext_pack mask_interval_end if_True if_False)

lemma emit_std_list_ids:
  assumes "bxcan_image_ok cfg s" "unat (max_banks cfg) \<le> 32"
    and "fst (bxcan_emit_std_list cfg s i1 i2 i3 i4) = CANFILTER_SUCCESS"
  shows "image_std_ids cfg (hw_config (snd (bxcan_emit_std_list cfg s i1 i2 i3 i4)))
      = {i1, i2, i3, i4} \<union> image_std_ids cfg (hw_config s)"
    and "image_ext_ids cfg (hw_config (snd (bxcan_emit_std_list cfg s i1 i2 i3 i4)))
      = image_ext_ids cfg (hw_config s)"
proof -
  from assms(3) have b: "unat (bank s) < unat (max_banks cfg)"
    and v: "i1 \<le> max_std_id" "i2 \<le> max_std_id" "i3 \<le> max_std_id" "i4 \<le> max_std_id"
    by (auto simp: bxcan_emit_std_list_def bank_full_iff split: if_splits)
  have e: "snd (bxcan_emit_std_list cfg s i1 i2 i3 i4) =
      write_bank s (push_bit 21 i2 OR push_bit 5 i1) (push_bit 21 i4 OR push_bit 5 i3) False True"
    using assms(3) by (auto simp: bxcan_emit_std_list_def split: if_splits)
  show "image_std_ids cfg (hw_config (snd (bxcan_emit_std_list cfg s i1 i2 i3 i4)))
      = {i1, i2, i3, i4} \<union> image_std_ids cfg (hw_config s)"
    unfolding e write_bank_ids[OF assms(1) b assms(2)] print_bank_lines(1)[OF v] by simp
  show "image_ext_ids cfg (hw_config (snd (bxcan_emit_std_list cfg s i1 i2 i3 i4)))
      = image_ext_ids cfg (hw_config s)"
    unfolding e write_bank_ids[OF assms(1) b assms(2)] print_bank_lines(1)[OF v] by simp
qed

lemma emit_std_mask_ids:
  assumes "bxcan_image_ok cfg s" "unat (max_banks cfg) \<le> 32"
    and "fst (bxcan_emit_std_mask cfg s i1 m1 i2 m2) = CANFILTER_SUCCESS"
  shows "image_std_ids cfg (hw_config (snd (bxcan_emit_std_mask cfg s i1 m1 i2 m2)))
      = block_ids max_std_id (i1, m1) \<union> block_ids max_std_id (i2, m2)
          \<union> image_std_ids cfg (hw_config s)"
    and "image_ext_ids cfg (hw_config (snd (bxcan_emit_std_mask cfg s i1 m1 i2 m2)))
      = image_ext_ids cfg (hw_config s)"
proof -
  from assms(3) have b: "unat (bank s) < unat (max_banks cfg)"
    and v: "i1 \<le> max_std_id" "m1 \<le> max_std_id" "i2 \<le> max_std_id" "m2 \<le> max_std_id"
    by (auto simp: bxcan_emit_std_mask_def bank_full_iff split: if_splits)
  have e: "snd (bxcan_emit_std_mask cfg s i1 m1 i2 m2) =
      write_bank s (push_bit 21 m1 OR push_bit 5 i1) (push_bit 21 m2 OR push_bit 5 i2) False False"
    using assms(3) by (auto simp: bxcan_emit_std_mask_def split: if_splits)
  show "image_std_ids cfg (hw_config (snd (bxcan_emit_std_mask cfg s i1 m1 i2 m2)))
      = block_ids max_std_id (i1, m1) \<union> block_ids max_std_id (i2, m2)
          \<union> image_std_ids cfg (hw_config s)"
    unfolding e write_bank_ids[OF assms(1) b assms(2)] print_bank_lines(2)[OF v]
    by (simp add: block_ids_def)
  show "image_ext_ids cfg (hw_config (snd (bxcan_emit_std_mask cfg s i1 m1 i2 m2)))
      = image_ext_ids cfg (hw_config s)"
    unfolding e write_bank_ids[OF assms(1) b assms(2)] print_bank_lines(2)[OF v] by simp
qed

lemma emit_ext_list_ids:
  assumes "bxcan_image_ok cfg s" "unat (max_banks cfg) \<le> 32"
    and "fst (bxcan_emit_ext_list cfg s i1 i2) = CANFILTER_SUCCESS"
  shows "image_ext_ids cfg (hw_config (snd (bxcan_emit_ext_list cfg s i1 i2)))
      = {i1, i2} \<union> image_ext_ids cfg (hw_config s)"
    and "image_std_ids cfg (hw_config (snd (bxcan_emit_ext_list cfg s i1 i2)))
      = image_std_ids cfg (hw_config s)"
proof -
  from assms(3) have b: "unat (bank s) < unat (max_banks cfg)"
    and v: "i1 \<le> max_ext_id" "i2 \<le> max_ext_id"
    by (auto simp: bxcan_emit_ext_list_def bank_full_iff split: if_splits)
  have e: "snd (bxcan_emit_ext_list cfg s i1 i2) =
      write_bank s (push_bit 3 i1 OR push_bit 2 1) (push_bit 3 i2 OR push_bit 2 1) True True"
    using assms(3) by (auto simp: bxcan_emit_ext_list_def split: if_splits)
  show "image_ext_ids cfg (hw_config (snd (bxcan_emit_ext_list cfg s i1 i2)))
      = {i1, i2} \<union> image_ext_ids cfg (hw_config s)"
    unfolding e write_bank_ids[OF assms(1) b assms(2)] print_bank_lines(3)[OF v] by simp
  show "image_std_ids cfg (hw_config (snd (bxcan_emit_ext_list cfg s i1 i2)))
      = image_std_ids cfg (hw_config s)"
    unfolding e write_bank_ids[OF assms(1) b assms(2)] print_bank_lines(3)[OF v] by simp
qed

lemma emit_ext_mask_ids:
  assumes "bxcan_image_ok cfg s" "unat (max_banks cfg) \<le> 32"
    and "fst (bxcan_emit_ext_mask cfg s i1 m1) = CANFILTER_SUCCESS"
  shows "image_ext_ids cfg (hw_config (snd (bxcan_emit_ext_mask cfg s i1 m1)))
      = {i1 AND m1 .. (i1 OR NOT m1) AND max_ext_id} \<union> image_ext_ids cfg (hw_config s)"
    and "image_std_ids cfg (hw_config (snd (bxcan_emit_ext_mask cfg s i1 m1)))
      = image_std_ids cfg (hw_config s)"
proof -
  from assms(3) have b: "unat (bank s) < unat (max_banks cfg)"
    and v: "i1 \<le> max_ext_id" "m1 \<le> max_ext_id"
    by (auto simp: bxcan_emit_ext_mask_def bank_full_iff split: if_splits)
  have e: "snd (bxcan_emit_ext_mask cfg s i1 m1) =
      write_bank s (push_bit 3 i1 OR push_bit 2 1) (push_bit 3 m1) True False"
    using assms(3) by (auto simp: bxcan_emit_ext_mask_def split: if_splits)
  show "image_ext_ids cfg (hw_config (snd (bxcan_emit_ext_mask cfg s i1 m1)))
      = {i1 AND m1 .. (i1 OR NOT m1) AND max_ext_id} \<union> image_ext_ids cfg (hw_config s)"
    unfolding e write_bank_ids[OF assms(1) b assms(2)] print_bank_lines(4)[OF v] by simp
  show "image_std_ids cfg (hw_config (snd (bxcan_emit_ext_mask cfg s i1 m1)))
      = image_std_ids cfg (hw_config s)"
    unfolding e write_bank_ids[OF assms(1) b assms(2)] print_bank_lines(4)[OF v] by simp
qed

lemma all_less_4: "(\<forall>j<4. P j) = (P 0 \<and> P 1 \<and> P 2 \<and> P (3::nat))"
proof -
  have "j < 4 \<longleftrightarrow> j = 0 \<or> j = 1 \<or> j = 2 \<or> j = 3" for j :: nat by arith
  then show ?thesis by auto
qed

lemma all_less_2: "(\<forall>j<2. P j) = (P 0 \<and> P (1::nat))"
proof -
  have "j < 2 \<longleftrightarrow> j = 0 \<or> j = 1" for j :: nat by arith
  then show ?thesis by auto
qed

lemma ids_acc_update:
  "image_std_ids cfg (hw_config (s\<lparr>std_list := l\<rparr>)) = image_std_ids cfg (hw_config s)"
  "image_std_ids cfg (hw_config (s\<lparr>std_list_count := c\<rparr>)) = image_std_ids cfg (hw_config s)"
  "image_std_ids cfg (hw_config (s\<lparr>std_mask := ml\<rparr>)) = image_std_ids cfg (hw_config s)"
  "image_std_ids cfg (hw_config (s\<lparr>std_mask_count := c\<rparr>)) = image_std_ids cfg (hw_config s)"
  "image_std_ids cfg (hw_config (s\<lparr>ext_list := l\<rparr>)) = image_std_ids cfg (hw_config s)"
  "image_std_ids cfg (hw_config (s\<lparr>ext_list_count := c\<rparr>)) = image_std_ids cfg (hw_config s)"
  "image_ext_ids cfg (hw_config (s\<lparr>std_list := l\<rparr>)) = image_ext_ids cfg (hw_config s)"
  "image_ext_ids cfg (hw_config (s\<lparr>std_list_count := c\<rparr>)) = image_ext_ids cfg (hw_config s)"
  "image_ext_ids cfg (hw_config (s\<lparr>std_mask := ml\<rparr>)) = image_ext_ids cfg (hw_config s)"
  "image_ext_ids cfg (hw_config (s\<lparr>std_mask_count := c\<rparr>)) = image_ext_ids cfg (hw_config s)"
  "image_ext_ids cfg (hw_config (s\<lparr>ext_list := l\<rparr>)) = image_ext_ids cfg (hw_config s)"
  "image_ext_ids cfg (hw_config (s\<lparr>ext_list_count := c\<rparr>)) = image_ext_ids cfg (hw_config s)"
  by simp_all

lemma add_std_list_fill_ok:
  assumes "bxcan_acc_ok s" "bxcan_fill_ok s"
  shows "bxcan_fill_ok (snd (bxcan_add_std_list cfg s i))"
proof -
  from assms(1) obtain x0 x1 x2 x3 where l: "std_list s = [x0, x1, x2, x3]"
    using length_4E[of "std_list s"] by (auto simp: bxcan_acc_ok_def bxcan_shape_def)
  from assms(1) have "std_list_count s \<le> 3" by (simp add: bxcan_acc_ok_def)
  then have c: "std_list_count s = 0 \<or> std_list_count s = 1 \<or> std_list_count s = 2
      \<or> std_list_count s = 3" by (rule u32_le_3)
  from c show ?thesis
    using assms(2) l
    by (elim disjE)
      (simp_all add: bxcan_add_std_list_def bxcan_fill_ok_def Let_def emit_acc all_less_4
        all_less_2)
qed

lemma add_std_list_ids:
  assumes "bxcan_image_ok cfg s" "bxcan_acc_ok s" "bxcan_fill_ok s"
    and "unat (max_banks cfg) \<le> 32"
    and "fst (bxcan_add_std_list cfg s i) = CANFILTER_SUCCESS"
  shows "bxcan_std_ids cfg (snd (bxcan_add_std_list cfg s i)) = insert i (bxcan_std_ids cfg s)"
    and "bxcan_ext_ids cfg (snd (bxcan_add_std_list cfg s i)) = bxcan_ext_ids cfg s"
proof -
  from assms(2) obtain x0 x1 x2 x3 where l: "std_list s = [x0, x1, x2, x3]"
    using length_4E[of "std_list s"] by (auto simp: bxcan_acc_ok_def bxcan_shape_def)
  from assms(2) have "std_list_count s \<le> 3" by (simp add: bxcan_acc_ok_def)
  then have c: "std_list_count s = 0 \<or> std_list_count s = 1 \<or> std_list_count s = 2
      \<or> std_list_count s = 3" by (rule u32_le_3)
  let ?s1 = "s\<lparr>std_list := [x0, x1, x2, i], std_list_count := 4\<rparr>"
  have ok1: "bxcan_image_ok cfg ?s1" using assms(1) by (simp add: image_ok_acc_update)
  have full: "std_list_count s = 3 \<Longrightarrow>
      fst (bxcan_emit_std_list cfg ?s1 x0 x1 x2 i) = CANFILTER_SUCCESS"
    using assms(5) l by (simp add: bxcan_add_std_list_def Let_def)
  note E = emit_std_list_ids[OF ok1 assms(4) full]
  from c show "bxcan_std_ids cfg (snd (bxcan_add_std_list cfg s i)) = insert i (bxcan_std_ids cfg s)"
    using assms(3) l E(1)
    by (elim disjE)
      (auto simp: bxcan_add_std_list_def bxcan_fill_ok_def Let_def emit_acc all_less_4
        bxcan_std_ids_def pending_std_ids_def ids_acc_update)
  from c show "bxcan_ext_ids cfg (snd (bxcan_add_std_list cfg s i)) = bxcan_ext_ids cfg s"
    using assms(3) l E(2)
    by (elim disjE)
      (auto simp: bxcan_add_std_list_def bxcan_fill_ok_def Let_def emit_acc all_less_4
        bxcan_ext_ids_def pending_ext_ids_def ids_acc_update)
qed

lemma add_std_mask_fill_ok:
  assumes "bxcan_acc_ok s" "bxcan_fill_ok s"
  shows "bxcan_fill_ok (snd (bxcan_add_std_mask cfg s i m))"
proof -
  from assms(1) obtain p0 p1 where l: "std_mask s = [p0, p1]"
    using length_2E[of "std_mask s"] by (auto simp: bxcan_acc_ok_def bxcan_shape_def)
  from assms(1) have "std_mask_count s \<le> 1" by (simp add: bxcan_acc_ok_def)
  then have c: "std_mask_count s = 0 \<or> std_mask_count s = 1" by (rule u32_le_1)
  from c show ?thesis
    using assms(2) l
    by (elim disjE)
      (simp_all add: bxcan_add_std_mask_def bxcan_fill_ok_def Let_def emit_acc all_less_4
        all_less_2)
qed

lemma add_std_mask_ids:
  assumes "bxcan_image_ok cfg s" "bxcan_acc_ok s" "bxcan_fill_ok s"
    and "unat (max_banks cfg) \<le> 32"
    and "fst (bxcan_add_std_mask cfg s i m) = CANFILTER_SUCCESS"
  shows "bxcan_std_ids cfg (snd (bxcan_add_std_mask cfg s i m))
      = block_ids max_std_id (i, m) \<union> bxcan_std_ids cfg s"
    and "bxcan_ext_ids cfg (snd (bxcan_add_std_mask cfg s i m)) = bxcan_ext_ids cfg s"
proof -
  from assms(2) obtain p0 p1 where l: "std_mask s = [p0, p1]"
    using length_2E[of "std_mask s"] by (auto simp: bxcan_acc_ok_def bxcan_shape_def)
  from assms(2) have "std_mask_count s \<le> 1" by (simp add: bxcan_acc_ok_def)
  then have c: "std_mask_count s = 0 \<or> std_mask_count s = 1" by (rule u32_le_1)
  let ?s1 = "s\<lparr>std_mask := [p0, (i, m)], std_mask_count := 2\<rparr>"
  have ok1: "bxcan_image_ok cfg ?s1" using assms(1) by (simp add: image_ok_acc_update)
  have full: "std_mask_count s = 1 \<Longrightarrow>
      fst (bxcan_emit_std_mask cfg ?s1 (fst p0) (snd p0) i m) = CANFILTER_SUCCESS"
    using assms(5) l by (simp add: bxcan_add_std_mask_def Let_def)
  note E = emit_std_mask_ids[OF ok1 assms(4) full]
  from c show "bxcan_std_ids cfg (snd (bxcan_add_std_mask cfg s i m))
      = block_ids max_std_id (i, m) \<union> bxcan_std_ids cfg s"
    using assms(3) l E(1)
    by (elim disjE)
      (auto simp: bxcan_add_std_mask_def bxcan_fill_ok_def Let_def emit_acc all_less_2
        bxcan_std_ids_def pending_std_ids_def ids_acc_update)
  from c show "bxcan_ext_ids cfg (snd (bxcan_add_std_mask cfg s i m)) = bxcan_ext_ids cfg s"
    using assms(3) l E(2)
    by (elim disjE)
      (auto simp: bxcan_add_std_mask_def bxcan_fill_ok_def Let_def emit_acc all_less_2
        bxcan_ext_ids_def pending_ext_ids_def ids_acc_update)
qed

lemma add_ext_list_fill_ok:
  assumes "bxcan_acc_ok s" "bxcan_fill_ok s"
  shows "bxcan_fill_ok (snd (bxcan_add_ext_list cfg s i))"
proof -
  from assms(1) obtain x0 x1 where l: "ext_list s = [x0, x1]"
    using length_2E[of "ext_list s"] by (auto simp: bxcan_acc_ok_def bxcan_shape_def)
  from assms(1) have "ext_list_count s \<le> 1" by (simp add: bxcan_acc_ok_def)
  then have c: "ext_list_count s = 0 \<or> ext_list_count s = 1" by (rule u32_le_1)
  from c show ?thesis
    using assms(2) l
    by (elim disjE)
      (simp_all add: bxcan_add_ext_list_def bxcan_fill_ok_def Let_def emit_acc all_less_4
        all_less_2)
qed

lemma add_ext_list_ids:
  assumes "bxcan_image_ok cfg s" "bxcan_acc_ok s" "bxcan_fill_ok s"
    and "unat (max_banks cfg) \<le> 32"
    and "fst (bxcan_add_ext_list cfg s i) = CANFILTER_SUCCESS"
  shows "bxcan_ext_ids cfg (snd (bxcan_add_ext_list cfg s i)) = insert i (bxcan_ext_ids cfg s)"
    and "bxcan_std_ids cfg (snd (bxcan_add_ext_list cfg s i)) = bxcan_std_ids cfg s"
proof -
  from assms(2) obtain x0 x1 where l: "ext_list s = [x0, x1]"
    using length_2E[of "ext_list s"] by (auto simp: bxcan_acc_ok_def bxcan_shape_def)
  from assms(2) have "ext_list_count s \<le> 1" by (simp add: bxcan_acc_ok_def)
  then have c: "ext_list_count s = 0 \<or> ext_list_count s = 1" by (rule u32_le_1)
  let ?s1 = "s\<lparr>ext_list := [x0, i], ext_list_count := 2\<rparr>"
  have ok1: "bxcan_image_ok cfg ?s1" using assms(1) by (simp add: image_ok_acc_update)
  have full: "ext_list_count s = 1 \<Longrightarrow>
      fst (bxcan_emit_ext_list cfg ?s1 x0 i) = CANFILTER_SUCCESS"
    using assms(5) l by (simp add: bxcan_add_ext_list_def Let_def)
  note E = emit_ext_list_ids[OF ok1 assms(4) full]
  from c show "bxcan_ext_ids cfg (snd (bxcan_add_ext_list cfg s i)) = insert i (bxcan_ext_ids cfg s)"
    using assms(3) l E(1)
    by (elim disjE)
      (auto simp: bxcan_add_ext_list_def bxcan_fill_ok_def Let_def emit_acc all_less_2
        bxcan_ext_ids_def pending_ext_ids_def ids_acc_update)
  from c show "bxcan_std_ids cfg (snd (bxcan_add_ext_list cfg s i)) = bxcan_std_ids cfg s"
    using assms(3) l E(2)
    by (elim disjE)
      (auto simp: bxcan_add_ext_list_def bxcan_fill_ok_def Let_def emit_acc all_less_2
        bxcan_std_ids_def pending_std_ids_def ids_acc_update)
qed

lemma add_ext_mask_fill_ok:
  "bxcan_fill_ok s \<Longrightarrow> bxcan_fill_ok (snd (bxcan_add_ext_mask cfg s i m))"
  by (simp add: bxcan_add_ext_mask_def bxcan_fill_ok_def emit_acc)

lemma add_ext_mask_ids:
  assumes "bxcan_image_ok cfg s" "unat (max_banks cfg) \<le> 32"
    and "fst (bxcan_add_ext_mask cfg s i m) = CANFILTER_SUCCESS"
  shows "bxcan_ext_ids cfg (snd (bxcan_add_ext_mask cfg s i m))
      = {i AND m .. (i OR NOT m) AND max_ext_id} \<union> bxcan_ext_ids cfg s"
    and "bxcan_std_ids cfg (snd (bxcan_add_ext_mask cfg s i m)) = bxcan_std_ids cfg s"
  using emit_ext_mask_ids[OF assms(1,2), of i m] assms(3)
  by (auto simp: bxcan_add_ext_mask_def bxcan_ext_ids_def bxcan_std_ids_def
      pending_ext_ids_def pending_std_ids_def emit_acc)

lemma cidr_block_aligned:
  assumes "cidr_block W c" "W \<le> 30"
  shows "fst c AND snd c = fst c"
proof -
  from assms(1) obtain k where k: "k \<le> W" "snd c = push_bit k (NOT 0) AND mask W"
    "fst c \<le> mask W" "fst c AND mask k = 0"
    by (auto simp: cidr_block_def)
  show ?thesis
  proof (rule bit_word_eqI)
    fix n assume n: "n < LENGTH(32)"
    have "bit (fst c) n \<Longrightarrow> n < W" using le_mask_bit[OF assms(2) k(3)] .
    moreover have "bit (fst c) n \<Longrightarrow> k \<le> n"
    proof (rule ccontr)
      assume b: "bit (fst c) n" and "\<not> k \<le> n"
      then have "bit (fst c AND mask k) n" using n by (simp add: bit_simps)
      with k(4) show False by simp
    qed
    ultimately show "bit (fst c AND snd c) n = bit (fst c) n"
      using n by (auto simp: k(2) bit_simps)
  qed
qed

lemma cidr_block_std_bounds:
  "cidr_block 11 c \<Longrightarrow> fst c \<le> max_std_id \<and> snd c \<le> max_std_id"
  using cidr_block_bounds[of 11 c] by (simp add: max_id_masks)

lemma cidr_block_ext_bounds:
  "cidr_block 29 c \<Longrightarrow> fst c \<le> max_ext_id \<and> snd c \<le> max_ext_id"
  using cidr_block_bounds[of 29 c] by (simp add: max_id_masks)

lemma single_std_id: "i \<le> max_std_id \<Longrightarrow> block_ids max_std_id (i, max_std_id) = {i}"
  using single_id_block[of 11 i] by (simp add: max_id_masks)

lemma single_ext_id: "i \<le> max_ext_id \<Longrightarrow> block_ids max_ext_id (i, max_ext_id) = {i}"
  using single_id_block[of 29 i] by (simp add: max_id_masks)

lemma feed_std_ids:
  assumes "bxcan_image_ok cfg s" "bxcan_acc_ok s" "bxcan_fill_ok s"
    and "unat (max_banks cfg) \<le> 32"
    and "\<forall>c\<in>set bs. cidr_block 11 c"
    and "fst (bxcan_feed_std cfg s bs) = CANFILTER_SUCCESS"
  shows "bxcan_std_ids cfg (snd (bxcan_feed_std cfg s bs))
      = (\<Union>c\<in>set bs. block_ids max_std_id c) \<union> bxcan_std_ids cfg s \<and>
    bxcan_ext_ids cfg (snd (bxcan_feed_std cfg s bs)) = bxcan_ext_ids cfg s"
  using assms(1,2,3,5,6)
proof (induction bs arbitrary: s)
  case Nil
  then show ?case by simp
next
  case (Cons c bs)
  let ?r = "if snd c = max_std_id then bxcan_add_std_list cfg s (fst c)
            else bxcan_add_std_mask cfg s (fst c) (snd c)"
  have cb: "fst c \<le> max_std_id" "snd c \<le> max_std_id"
    using Cons.prems(4) cidr_block_std_bounds[of c] by simp_all
  have ok: "fst ?r = CANFILTER_SUCCESS"
    using Cons.prems(5) by (simp split: if_splits)
  then have f: "bxcan_feed_std cfg s (c # bs) = bxcan_feed_std cfg (snd ?r) bs" by simp
  have inv: "bxcan_image_ok cfg (snd ?r)" "bxcan_acc_ok (snd ?r)" "bxcan_fill_ok (snd ?r)"
    using Cons.prems(1,2,3) cb
    by (simp_all add: add_image_ok add_std_list_acc_ok add_std_mask_acc_ok
        add_std_list_fill_ok add_std_mask_fill_ok)
  have ids: "bxcan_std_ids cfg (snd ?r) = block_ids max_std_id c \<union> bxcan_std_ids cfg s"
    "bxcan_ext_ids cfg (snd ?r) = bxcan_ext_ids cfg s"
  proof -
    show "bxcan_std_ids cfg (snd ?r) = block_ids max_std_id c \<union> bxcan_std_ids cfg s"
    proof (cases "snd c = max_std_id")
      case True
      then have "block_ids max_std_id c = {fst c}"
        using single_std_id[OF cb(1)] by (cases c) simp
      then show ?thesis
        using True ok add_std_list_ids(1)[OF Cons.prems(1,2,3) assms(4), of "fst c"] by simp
    next
      case False
      then show ?thesis
        using ok add_std_mask_ids(1)[OF Cons.prems(1,2,3) assms(4), of "fst c" "snd c"] by simp
    qed
    show "bxcan_ext_ids cfg (snd ?r) = bxcan_ext_ids cfg s"
      using ok add_std_list_ids(2)[OF Cons.prems(1,2,3) assms(4), of "fst c"]
        add_std_mask_ids(2)[OF Cons.prems(1,2,3) assms(4), of "fst c" "snd c"]
      by (simp split: if_splits)
  qed
  have rest: "\<forall>c\<in>set bs. cidr_block 11 c" using Cons.prems(4) by simp
  have s2: "fst (bxcan_feed_std cfg (snd ?r) bs) = CANFILTER_SUCCESS"
    using Cons.prems(5) f by simp
  show ?case
    unfolding f using Cons.IH[OF inv rest s2] ids by auto
qed

lemma feed_ext_ids:
  assumes "bxcan_image_ok cfg s" "bxcan_acc_ok s" "bxcan_fill_ok s"
    and "unat (max_banks cfg) \<le> 32"
    and "\<forall>c\<in>set bs. cidr_block 29 c"
    and "fst (bxcan_feed_ext cfg s bs) = CANFILTER_SUCCESS"
  shows "bxcan_ext_ids cfg (snd (bxcan_feed_ext cfg s bs))
      = (\<Union>c\<in>set bs. block_ids max_ext_id c) \<union> bxcan_ext_ids cfg s \<and>
    bxcan_std_ids cfg (snd (bxcan_feed_ext cfg s bs)) = bxcan_std_ids cfg s"
  using assms(1,2,3,5,6)
proof (induction bs arbitrary: s)
  case Nil
  then show ?case by simp
next
  case (Cons c bs)
  let ?r = "if snd c = max_ext_id then bxcan_add_ext_list cfg s (fst c)
            else bxcan_add_ext_mask cfg s (fst c) (snd c)"
  have cb: "fst c \<le> max_ext_id" "snd c \<le> max_ext_id"
    using Cons.prems(4) cidr_block_ext_bounds[of c] by simp_all
  have al: "fst c AND snd c = fst c"
    using Cons.prems(4) cidr_block_aligned[of 29 c] by simp
  have ok: "fst ?r = CANFILTER_SUCCESS"
    using Cons.prems(5) by (simp split: if_splits)
  then have f: "bxcan_feed_ext cfg s (c # bs) = bxcan_feed_ext cfg (snd ?r) bs" by simp
  have inv: "bxcan_image_ok cfg (snd ?r)" "bxcan_acc_ok (snd ?r)" "bxcan_fill_ok (snd ?r)"
    using Cons.prems(1,2,3) cb
    by (simp_all add: add_image_ok add_ext_list_acc_ok add_ext_mask_acc_ok
        add_ext_list_fill_ok add_ext_mask_fill_ok)
  have ids: "bxcan_ext_ids cfg (snd ?r) = block_ids max_ext_id c \<union> bxcan_ext_ids cfg s"
    "bxcan_std_ids cfg (snd ?r) = bxcan_std_ids cfg s"
  proof -
    show "bxcan_ext_ids cfg (snd ?r) = block_ids max_ext_id c \<union> bxcan_ext_ids cfg s"
    proof (cases "snd c = max_ext_id")
      case True
      then have "block_ids max_ext_id c = {fst c}"
        using single_ext_id[OF cb(1)] by (cases c) simp
      then show ?thesis
        using True ok add_ext_list_ids(1)[OF Cons.prems(1,2,3) assms(4), of "fst c"] by simp
    next
      case False
      have "block_ids max_ext_id c = {fst c AND snd c .. (fst c OR NOT (snd c)) AND max_ext_id}"
        by (simp add: block_ids_def al)
      then show ?thesis
        using False ok add_ext_mask_ids(1)[OF Cons.prems(1) assms(4), of "fst c" "snd c"]
        by simp
    qed
    show "bxcan_std_ids cfg (snd ?r) = bxcan_std_ids cfg s"
      using ok add_ext_list_ids(2)[OF Cons.prems(1,2,3) assms(4), of "fst c"]
        add_ext_mask_ids(2)[OF Cons.prems(1) assms(4), of "fst c" "snd c"]
      by (simp split: if_splits)
  qed
  have rest: "\<forall>c\<in>set bs. cidr_block 29 c" using Cons.prems(4) by simp
  have s2: "fst (bxcan_feed_ext cfg (snd ?r) bs) = CANFILTER_SUCCESS"
    using Cons.prems(5) f by simp
  show ?case
    unfolding f using Cons.IH[OF inv rest s2] ids by auto
qed

lemma feed_std_fill_ok:
  "bxcan_acc_ok s \<Longrightarrow> bxcan_fill_ok s \<Longrightarrow>
   \<forall>c\<in>set bs. fst c \<le> max_std_id \<and> snd c \<le> max_std_id \<Longrightarrow>
   bxcan_fill_ok (snd (bxcan_feed_std cfg s bs))"
proof (induction bs arbitrary: s)
  case Nil
  then show ?case by simp
next
  case (Cons c bs)
  let ?r = "if snd c = max_std_id then bxcan_add_std_list cfg s (fst c)
            else bxcan_add_std_mask cfg s (fst c) (snd c)"
  from Cons.prems have cb: "fst c \<le> max_std_id" "snd c \<le> max_std_id" by simp_all
  have inv: "bxcan_acc_ok (snd ?r)" "bxcan_fill_ok (snd ?r)"
    using Cons.prems(1,2) cb
    by (simp_all add: add_std_list_acc_ok add_std_mask_acc_ok add_std_list_fill_ok
        add_std_mask_fill_ok)
  show ?case
  proof (cases "fst ?r = CANFILTER_SUCCESS")
    case True
    then have "bxcan_feed_std cfg s (c # bs) = bxcan_feed_std cfg (snd ?r) bs" by simp
    with Cons.IH[OF inv] Cons.prems(3) show ?thesis by simp
  next
    case False
    then have "bxcan_feed_std cfg s (c # bs) = ?r" by simp
    with inv show ?thesis by simp
  qed
qed

lemma feed_ext_fill_ok:
  "bxcan_acc_ok s \<Longrightarrow> bxcan_fill_ok s \<Longrightarrow>
   \<forall>c\<in>set bs. fst c \<le> max_ext_id \<and> snd c \<le> max_ext_id \<Longrightarrow>
   bxcan_fill_ok (snd (bxcan_feed_ext cfg s bs))"
proof (induction bs arbitrary: s)
  case Nil
  then show ?case by simp
next
  case (Cons c bs)
  let ?r = "if snd c = max_ext_id then bxcan_add_ext_list cfg s (fst c)
            else bxcan_add_ext_mask cfg s (fst c) (snd c)"
  from Cons.prems have cb: "fst c \<le> max_ext_id" "snd c \<le> max_ext_id" by simp_all
  have inv: "bxcan_acc_ok (snd ?r)" "bxcan_fill_ok (snd ?r)"
    using Cons.prems(1,2) cb
    by (simp_all add: add_ext_list_acc_ok add_ext_mask_acc_ok add_ext_list_fill_ok
        add_ext_mask_fill_ok)
  show ?case
  proof (cases "fst ?r = CANFILTER_SUCCESS")
    case True
    then have "bxcan_feed_ext cfg s (c # bs) = bxcan_feed_ext cfg (snd ?r) bs" by simp
    with Cons.IH[OF inv] Cons.prems(3) show ?thesis by simp
  next
    case False
    then have "bxcan_feed_ext cfg s (c # bs) = ?r" by simp
    with inv show ?thesis by simp
  qed
qed

lemma add_range_fill_ok:
  assumes "bxcan_acc_ok s" "bxcan_fill_ok s"
  shows "bxcan_fill_ok (snd (bxcan_add_std_range cfg s a b))"
    and "bxcan_fill_ok (snd (bxcan_add_ext_range cfg s a b))"
proof -
  show "bxcan_fill_ok (snd (bxcan_add_std_range cfg s a b))"
  proof (cases "a \<le> max_std_id \<and> b \<le> max_std_id")
    case True
    then show ?thesis
      using feed_std_fill_ok[OF assms std_blocks_bounds, of a b cfg]
      by (simp add: bxcan_add_std_range_feed)
  next
    case False
    then show ?thesis using assms by (auto simp: bxcan_add_std_range_def)
  qed
  show "bxcan_fill_ok (snd (bxcan_add_ext_range cfg s a b))"
  proof (cases "a \<le> max_ext_id \<and> b \<le> max_ext_id")
    case True
    then show ?thesis
      using feed_ext_fill_ok[OF assms ext_blocks_bounds, of a b cfg]
      by (simp add: bxcan_add_ext_range_feed)
  next
    case False
    then show ?thesis using assms by (auto simp: bxcan_add_ext_range_def)
  qed
qed

lemma end_fill_ok: "bxcan_fill_ok (snd (bxcan_end cfg s)) = bxcan_fill_ok s"
  by (simp add: bxcan_fill_ok_def end_acc)

lemma do_fill_ok:
  "bxcan_acc_ok s \<Longrightarrow> bxcan_fill_ok s \<Longrightarrow> bxcan_fill_ok (snd (bxcan_do cfg s c))"
  by (cases c)
    (simp_all add: bxcan_add_std_id_def bxcan_add_ext_id_def add_range_fill_ok end_fill_ok)

lemma run_fill_ok:
  "bxcan_acc_ok s \<Longrightarrow> bxcan_fill_ok s \<Longrightarrow> bxcan_fill_ok (bxcan_run cfg s cs)"
  by (induction cs arbitrary: s) (simp_all add: do_fill_ok do_acc_ok)

lemma begin_fill_ok: "bxcan_fill_ok (snd (bxcan_begin cfg s))"
  by (simp add: bxcan_begin_def bxcan_fill_ok_def)

lemma reachable_builder_ok:
  assumes "bxcan_shape s0"
  shows "bxcan_image_ok cfg (bxcan_run cfg (snd (bxcan_begin cfg s0)) calls)"
    and "bxcan_acc_ok (bxcan_run cfg (snd (bxcan_begin cfg s0)) calls)"
    and "bxcan_fill_ok (bxcan_run cfg (snd (bxcan_begin cfg s0)) calls)"
  using assms
  by (simp_all add: run_image_ok begin_image_ok run_acc_ok begin_acc_ok run_fill_ok
      begin_fill_ok)

lemma add_std_range_ids:
  assumes "bxcan_image_ok cfg s" "bxcan_acc_ok s" "bxcan_fill_ok s"
    and "unat (max_banks cfg) \<le> 32"
    and "a \<le> max_std_id" "b \<le> max_std_id"
    and "fst (bxcan_add_std_range cfg s a b) = CANFILTER_SUCCESS"
  shows "bxcan_std_ids cfg (snd (bxcan_add_std_range cfg s a b))
      = {min a b .. max a b} \<union> bxcan_std_ids cfg s"
    and "bxcan_ext_ids cfg (snd (bxcan_add_std_range cfg s a b)) = bxcan_ext_ids cfg s"
proof -
  note c = std_blocks_facts(1)[OF assms(5,6)]
  have blocks: "\<forall>c\<in>set (std_blocks (min a b) (max a b)). cidr_block 11 c"
    and u: "(\<Union>c\<in>set (std_blocks (min a b) (max a b)). block_ids max_std_id c)
        = {min a b .. max a b}"
    using c by (simp_all add: cidr_cover_def max_id_masks)
  note f = bxcan_add_std_range_feed[OF assms(5,6), of cfg s]
  note F = feed_std_ids[OF assms(1,2,3,4) blocks assms(7)[unfolded f]]
  show "bxcan_std_ids cfg (snd (bxcan_add_std_range cfg s a b))
      = {min a b .. max a b} \<union> bxcan_std_ids cfg s"
    unfolding f using F u by simp
  show "bxcan_ext_ids cfg (snd (bxcan_add_std_range cfg s a b)) = bxcan_ext_ids cfg s"
    unfolding f using F by simp
qed

lemma add_ext_range_ids:
  assumes "bxcan_image_ok cfg s" "bxcan_acc_ok s" "bxcan_fill_ok s"
    and "unat (max_banks cfg) \<le> 32"
    and "a \<le> max_ext_id" "b \<le> max_ext_id"
    and "fst (bxcan_add_ext_range cfg s a b) = CANFILTER_SUCCESS"
  shows "bxcan_ext_ids cfg (snd (bxcan_add_ext_range cfg s a b))
      = {min a b .. max a b} \<union> bxcan_ext_ids cfg s"
    and "bxcan_std_ids cfg (snd (bxcan_add_ext_range cfg s a b)) = bxcan_std_ids cfg s"
proof -
  note c = ext_blocks_facts(1)[OF assms(5,6)]
  have blocks: "\<forall>c\<in>set (ext_blocks (min a b) (max a b)). cidr_block 29 c"
    and u: "(\<Union>c\<in>set (ext_blocks (min a b) (max a b)). block_ids max_ext_id c)
        = {min a b .. max a b}"
    using c by (simp_all add: cidr_cover_def max_id_masks)
  note f = bxcan_add_ext_range_feed[OF assms(5,6), of cfg s]
  note F = feed_ext_ids[OF assms(1,2,3,4) blocks assms(7)[unfolded f]]
  show "bxcan_ext_ids cfg (snd (bxcan_add_ext_range cfg s a b))
      = {min a b .. max a b} \<union> bxcan_ext_ids cfg s"
    unfolding f using F u by simp
  show "bxcan_std_ids cfg (snd (bxcan_add_ext_range cfg s a b)) = bxcan_std_ids cfg s"
    unfolding f using F by simp
qed

lemma end_ids:
  assumes "bxcan_image_ok cfg s" "bxcan_acc_ok s" "unat (max_banks cfg) \<le> 32"
    and "fst (bxcan_end cfg s) = CANFILTER_SUCCESS"
  shows "image_std_ids cfg (hw_config (snd (bxcan_end cfg s))) = bxcan_std_ids cfg s"
    and "image_ext_ids cfg (hw_config (snd (bxcan_end cfg s))) = bxcan_ext_ids cfg s"
proof -
  from assms(2) obtain x0 x1 x2 x3 where l: "std_list s = [x0, x1, x2, x3]"
    using length_4E[of "std_list s"] by (auto simp: bxcan_acc_ok_def bxcan_shape_def)
  from assms(2) obtain p0 p1 where ml: "std_mask s = [p0, p1]"
    using length_2E[of "std_mask s"] by (auto simp: bxcan_acc_ok_def bxcan_shape_def)
  from assms(2) obtain e0 e1 where el: "ext_list s = [e0, e1]"
    using length_2E[of "ext_list s"] by (auto simp: bxcan_acc_ok_def bxcan_shape_def)
  define r1 where "r1 = (if std_list_count s \<noteq> 0
                then bxcan_emit_std_list cfg s x0 x1 x2 x3
                else (CANFILTER_SUCCESS, s))"
  define r2 where "r2 = (if std_mask_count s \<noteq> 0 \<and> fst r1 = CANFILTER_SUCCESS
                then bxcan_emit_std_mask cfg (snd r1) (fst p0) (snd p0) (fst p1) (snd p1)
                else r1)"
  define r3 where "r3 = (if ext_list_count s \<noteq> 0 \<and> fst r2 = CANFILTER_SUCCESS
         then bxcan_emit_ext_list cfg (snd r2) e0 e1
         else r2)"
  have a1: "std_list (snd r1) = std_list s" "std_mask (snd r1) = std_mask s"
    "ext_list (snd r1) = ext_list s" "std_mask_count (snd r1) = std_mask_count s"
    "ext_list_count (snd r1) = ext_list_count s"
    by (simp_all add: r1_def emit_acc)
  have a2: "ext_list (snd r2) = ext_list s" "ext_list_count (snd r2) = ext_list_count s"
    by (simp_all add: r2_def emit_acc a1)
  have e: "bxcan_end cfg s = r3"
    by (simp add: bxcan_end_def r1_def r2_def r3_def Let_def l ml el emit_acc)
  from assms(4) e have s3: "fst r3 = CANFILTER_SUCCESS" by simp
  then have s2: "fst r2 = CANFILTER_SUCCESS" by (simp add: r3_def split: if_splits)
  then have s1: "fst r1 = CANFILTER_SUCCESS" by (simp add: r2_def split: if_splits)
  have ok1: "bxcan_image_ok cfg (snd r1)"
    using assms(1) by (simp add: r1_def emit_image_ok)
  have ok2: "bxcan_image_ok cfg (snd r2)"
    using ok1 by (simp add: r2_def emit_image_ok)
  have i1: "image_std_ids cfg (hw_config (snd r1))
      = (if std_list_count s \<noteq> 0 then set (std_list s) else {})
          \<union> image_std_ids cfg (hw_config s)"
    "image_ext_ids cfg (hw_config (snd r1)) = image_ext_ids cfg (hw_config s)"
    using s1 emit_std_list_ids[OF assms(1,3), of x0 x1 x2 x3]
    by (auto simp: r1_def l split: if_splits)
  have i2: "image_std_ids cfg (hw_config (snd r2))
      = (if std_mask_count s \<noteq> 0 then (\<Union>p\<in>set (std_mask s). block_ids max_std_id p) else {})
          \<union> image_std_ids cfg (hw_config (snd r1))"
    "image_ext_ids cfg (hw_config (snd r2)) = image_ext_ids cfg (hw_config (snd r1))"
    using s2 s1 emit_std_mask_ids[OF ok1 assms(3), of "fst p0" "snd p0" "fst p1" "snd p1"]
    by (auto simp: r2_def ml split: if_splits)
  have i3: "image_ext_ids cfg (hw_config (snd r3))
      = (if ext_list_count s \<noteq> 0 then set (ext_list s) else {})
          \<union> image_ext_ids cfg (hw_config (snd r2))"
    "image_std_ids cfg (hw_config (snd r3)) = image_std_ids cfg (hw_config (snd r2))"
    using s3 s2 emit_ext_list_ids[OF ok2 assms(3), of e0 e1]
    by (auto simp: r3_def el split: if_splits)
  show "image_std_ids cfg (hw_config (snd (bxcan_end cfg s))) = bxcan_std_ids cfg s"
    unfolding e i3 i2 i1 by (auto simp: bxcan_std_ids_def pending_std_ids_def)
  show "image_ext_ids cfg (hw_config (snd (bxcan_end cfg s))) = bxcan_ext_ids cfg s"
    unfolding e i3 i2 i1 by (auto simp: bxcan_ext_ids_def pending_ext_ids_def)
qed

lemma begin_ids:
  "bxcan_std_ids cfg (snd (bxcan_begin cfg s)) = {}"
  "bxcan_ext_ids cfg (snd (bxcan_begin cfg s)) = {}"
  by (simp_all add: bxcan_std_ids_def bxcan_ext_ids_def pending_std_ids_def pending_ext_ids_def
      image_std_ids_def image_ext_ids_def debug_print_set debug_print_bank_def bxcan_begin_def
      bxcan_hw_t_def)


subsection \<open>The identifiers of a range\<close>

text \<open>
  C1, as the specification states it: for every range of the 11-bit (29-bit) space,
  \<^verbatim>\<open>add_std_range\<close> (\<^verbatim>\<open>add_ext_range\<close>) emits blocks whose decoded intervals have the range
  as their union. The code does otherwise when the banks run out: the loop returns at the
  first error of an accumulator and the remaining blocks are never generated. On a
  bxCAN-14 builder after \<^verbatim>\<open>begin()\<close>, \<^verbatim>\<open>add_ext_range(1, 0xFFFF)\<close> returns
  \<^verbatim>\<open>CANFILTER_ERROR_FULL\<close>, and the identifiers the builder holds are those from \<open>1\<close> to
  \<open>0x7FFF\<close> only.
\<close>

theorem range_emission_counterexample:
  "fst (bxcan_add_ext_range bxcan_f0 (snd (bxcan_begin bxcan_f0 (bxcan_new bxcan_f0))) 1 0xFFFF)
     = CANFILTER_ERROR_FULL \<and>
   bxcan_ext_ids bxcan_f0
     (snd (bxcan_add_ext_range bxcan_f0 (snd (bxcan_begin bxcan_f0 (bxcan_new bxcan_f0)))
        1 0xFFFF)) = {1 .. 0x7FFF} \<and>
   0xFFFF \<notin> bxcan_ext_ids bxcan_f0
     (snd (bxcan_add_ext_range bxcan_f0 (snd (bxcan_begin bxcan_f0 (bxcan_new bxcan_f0)))
        1 0xFFFF))"
proof -
  let ?s = "snd (bxcan_begin bxcan_f0 (bxcan_new bxcan_f0))"
  have sh: "bxcan_shape (bxcan_new bxcan_f0)" by (simp add: bxcan_shape_def bxcan_new_def)
  have m32: "unat (max_banks bxcan_f0) \<le> 32" by (simp add: bxcan_f0_def)
  have mm: "min (1::u32) 0xFFFF = 1" "max (1::u32) 0xFFFF = 0xFFFF"
    "min (1::u32) 0x7FFF = 1" "max (1::u32) 0x7FFF = 0x7FFF" by simp_all
  have b15: "ext_blocks 1 0x7FFF = butlast (ext_blocks 1 0xFFFF)"
    unfolding ext_blocks_16 by (simp add: blocks_eval)
  have f16: "bxcan_add_ext_range bxcan_f0 ?s 1 0xFFFF
      = bxcan_feed_ext bxcan_f0 ?s (ext_blocks 1 0xFFFF)"
    using bxcan_add_ext_range_feed[of 1 "0xFFFF" bxcan_f0 ?s] unfolding mm
    by (simp add: max_ext_id_def)
  have n: "\<not> (14::u32) \<le> 1" by (simp add: word_le_nat_alt)
  have stop: "bxcan_feed_ext bxcan_f0 ?s (ext_blocks 1 0xFFFF)
      = (CANFILTER_ERROR_FULL, snd (bxcan_feed_ext bxcan_f0 ?s (ext_blocks 1 0x7FFF)))"
    and ok15: "fst (bxcan_feed_ext bxcan_f0 ?s (ext_blocks 1 0x7FFF)) = CANFILTER_SUCCESS"
    unfolding b15 ext_blocks_16
    by (simp_all add: bxcan_add_ext_list_def bxcan_add_ext_mask_def bxcan_emit_ext_list_def
        bxcan_emit_ext_mask_def write_bank_def bxcan_begin_def bxcan_new_def bxcan_hw_t_def
        bxcan_f0_def max_ext_id_def Let_def n)
  have c15: "cidr_cover 29 1 0x7FFF (ext_blocks 1 0x7FFF)"
    using ext_blocks_facts(1)[of 1 "0x7FFF"] unfolding mm by (simp add: max_ext_id_def)
  then have blocks: "\<forall>c\<in>set (ext_blocks 1 0x7FFF). cidr_block 29 c"
    and u: "(\<Union>c\<in>set (ext_blocks 1 0x7FFF). block_ids max_ext_id c) = {1 .. 0x7FFF}"
    by (simp_all add: cidr_cover_def max_id_masks)
  note F = feed_ext_ids[OF begin_image_ok begin_acc_ok[OF sh] begin_fill_ok m32 blocks ok15]
  have ids: "bxcan_ext_ids bxcan_f0 (snd (bxcan_add_ext_range bxcan_f0 ?s 1 0xFFFF))
      = {1 .. 0x7FFF}"
    unfolding f16 stop using F u by (simp add: begin_ids)
  show ?thesis
    unfolding ids using f16 stop by simp
qed


text \<open>
  C1, amended. For every range whose two ends \<open>a\<close>, \<open>b\<close> are standard identifiers (at most
  \<open>0x7FF\<close>), the blocks that the loop of \<^verbatim>\<open>add_std_range\<close> generates, a list identifier when
  the mask is \<open>0x7FF\<close> and a \<open>(base, mask)\<close> pair otherwise, are pairwise disjoint, and the
  union of their decoded intervals \<open>base .. (base | ~mask) & 0x7FF\<close> is exactly the range from
  \<open>min a b\<close> to \<open>max a b\<close>; \<^verbatim>\<open>add_std_range\<close> hands them to the accumulators in order until
  one reports an error. On a builder reached from \<^verbatim>\<open>begin()\<close>, with at most 32 banks, when
  \<^verbatim>\<open>add_std_range\<close> returns \<^verbatim>\<open>CANFILTER_SUCCESS\<close> the standard identifiers the builder holds
  (those of the banks written, read back as \<^verbatim>\<open>debug_print\<close> reads them, and those waiting
  in the accumulators) are the ones it held before and exactly those of the range, and the
  extended ones are unchanged. When \<^verbatim>\<open>end()\<close> then returns \<^verbatim>\<open>CANFILTER_SUCCESS\<close>, the banks
  of the image read back as exactly the identifiers the builder held. The same holds for
  \<^verbatim>\<open>add_ext_range\<close> in the 29-bit space with \<open>0x1FFFFFFF\<close>.
\<close>

theorem range_decomposition_emitted:
  "(a \<le> max_std_id \<and> b \<le> max_std_id \<longrightarrow>
      disjoint_blocks max_std_id (std_blocks (min a b) (max a b)) \<and>
      (\<Union>c\<in>set (std_blocks (min a b) (max a b)). block_ids max_std_id c) = {min a b .. max a b} \<and>
      bxcan_add_std_range cfg (bxcan_run cfg (snd (bxcan_begin cfg s0)) calls) a b
        = bxcan_feed_std cfg (bxcan_run cfg (snd (bxcan_begin cfg s0)) calls)
            (std_blocks (min a b) (max a b)) \<and>
      (bxcan_shape s0 \<and> unat (max_banks cfg) \<le> 32 \<and>
       fst (bxcan_add_std_range cfg (bxcan_run cfg (snd (bxcan_begin cfg s0)) calls) a b)
         = CANFILTER_SUCCESS \<longrightarrow>
         bxcan_std_ids cfg
             (snd (bxcan_add_std_range cfg (bxcan_run cfg (snd (bxcan_begin cfg s0)) calls) a b))
           = {min a b .. max a b}
               \<union> bxcan_std_ids cfg (bxcan_run cfg (snd (bxcan_begin cfg s0)) calls) \<and>
         bxcan_ext_ids cfg
             (snd (bxcan_add_std_range cfg (bxcan_run cfg (snd (bxcan_begin cfg s0)) calls) a b))
           = bxcan_ext_ids cfg (bxcan_run cfg (snd (bxcan_begin cfg s0)) calls))) \<and>
   (a \<le> max_ext_id \<and> b \<le> max_ext_id \<longrightarrow>
      disjoint_blocks max_ext_id (ext_blocks (min a b) (max a b)) \<and>
      (\<Union>c\<in>set (ext_blocks (min a b) (max a b)). block_ids max_ext_id c) = {min a b .. max a b} \<and>
      bxcan_add_ext_range cfg (bxcan_run cfg (snd (bxcan_begin cfg s0)) calls) a b
        = bxcan_feed_ext cfg (bxcan_run cfg (snd (bxcan_begin cfg s0)) calls)
            (ext_blocks (min a b) (max a b)) \<and>
      (bxcan_shape s0 \<and> unat (max_banks cfg) \<le> 32 \<and>
       fst (bxcan_add_ext_range cfg (bxcan_run cfg (snd (bxcan_begin cfg s0)) calls) a b)
         = CANFILTER_SUCCESS \<longrightarrow>
         bxcan_ext_ids cfg
             (snd (bxcan_add_ext_range cfg (bxcan_run cfg (snd (bxcan_begin cfg s0)) calls) a b))
           = {min a b .. max a b}
               \<union> bxcan_ext_ids cfg (bxcan_run cfg (snd (bxcan_begin cfg s0)) calls) \<and>
         bxcan_std_ids cfg
             (snd (bxcan_add_ext_range cfg (bxcan_run cfg (snd (bxcan_begin cfg s0)) calls) a b))
           = bxcan_std_ids cfg (bxcan_run cfg (snd (bxcan_begin cfg s0)) calls))) \<and>
   (bxcan_shape s0 \<and> unat (max_banks cfg) \<le> 32 \<and>
    fst (bxcan_end cfg (bxcan_run cfg (snd (bxcan_begin cfg s0)) calls)) = CANFILTER_SUCCESS \<longrightarrow>
      image_std_ids cfg
          (hw_config (snd (bxcan_end cfg (bxcan_run cfg (snd (bxcan_begin cfg s0)) calls))))
        = bxcan_std_ids cfg (bxcan_run cfg (snd (bxcan_begin cfg s0)) calls) \<and>
      image_ext_ids cfg
          (hw_config (snd (bxcan_end cfg (bxcan_run cfg (snd (bxcan_begin cfg s0)) calls))))
        = bxcan_ext_ids cfg (bxcan_run cfg (snd (bxcan_begin cfg s0)) calls))"
proof -
  let ?R = "bxcan_run cfg (snd (bxcan_begin cfg s0)) calls"
  have std: "disjoint_blocks max_std_id (std_blocks (min a b) (max a b)) \<and>
      (\<Union>c\<in>set (std_blocks (min a b) (max a b)). block_ids max_std_id c) = {min a b .. max a b} \<and>
      bxcan_add_std_range cfg ?R a b = bxcan_feed_std cfg ?R (std_blocks (min a b) (max a b))"
    if h: "a \<le> max_std_id \<and> b \<le> max_std_id"
    using std_blocks_facts(1)[of a b] bxcan_add_std_range_feed[of a b cfg ?R] h
    by (simp add: cidr_cover_def max_std_id_mask)
  have ext: "disjoint_blocks max_ext_id (ext_blocks (min a b) (max a b)) \<and>
      (\<Union>c\<in>set (ext_blocks (min a b) (max a b)). block_ids max_ext_id c) = {min a b .. max a b} \<and>
      bxcan_add_ext_range cfg ?R a b = bxcan_feed_ext cfg ?R (ext_blocks (min a b) (max a b))"
    if h: "a \<le> max_ext_id \<and> b \<le> max_ext_id"
    using ext_blocks_facts(1)[of a b] bxcan_add_ext_range_feed[of a b cfg ?R] h
    by (simp add: cidr_cover_def max_ext_id_mask)
  have stdS: "bxcan_std_ids cfg (snd (bxcan_add_std_range cfg ?R a b))
           = {min a b .. max a b} \<union> bxcan_std_ids cfg ?R \<and>
         bxcan_ext_ids cfg (snd (bxcan_add_std_range cfg ?R a b)) = bxcan_ext_ids cfg ?R"
    if h: "a \<le> max_std_id \<and> b \<le> max_std_id"
      and g: "bxcan_shape s0 \<and> unat (max_banks cfg) \<le> 32 \<and>
       fst (bxcan_add_std_range cfg ?R a b) = CANFILTER_SUCCESS"
  proof -
    note I = reachable_builder_ok[of s0 cfg calls, OF g[THEN conjunct1]]
    from add_std_range_ids[OF I g[THEN conjunct2, THEN conjunct1] h[THEN conjunct1]
        h[THEN conjunct2] g[THEN conjunct2, THEN conjunct2]]
    show ?thesis by simp
  qed
  have extS: "bxcan_ext_ids cfg (snd (bxcan_add_ext_range cfg ?R a b))
           = {min a b .. max a b} \<union> bxcan_ext_ids cfg ?R \<and>
         bxcan_std_ids cfg (snd (bxcan_add_ext_range cfg ?R a b)) = bxcan_std_ids cfg ?R"
    if h: "a \<le> max_ext_id \<and> b \<le> max_ext_id"
      and g: "bxcan_shape s0 \<and> unat (max_banks cfg) \<le> 32 \<and>
       fst (bxcan_add_ext_range cfg ?R a b) = CANFILTER_SUCCESS"
  proof -
    note I = reachable_builder_ok[of s0 cfg calls, OF g[THEN conjunct1]]
    from add_ext_range_ids[OF I g[THEN conjunct2, THEN conjunct1] h[THEN conjunct1]
        h[THEN conjunct2] g[THEN conjunct2, THEN conjunct2]]
    show ?thesis by simp
  qed
  have endS: "image_std_ids cfg (hw_config (snd (bxcan_end cfg ?R))) = bxcan_std_ids cfg ?R \<and>
      image_ext_ids cfg (hw_config (snd (bxcan_end cfg ?R))) = bxcan_ext_ids cfg ?R"
    if g: "bxcan_shape s0 \<and> unat (max_banks cfg) \<le> 32 \<and>
      fst (bxcan_end cfg ?R) = CANFILTER_SUCCESS"
  proof -
    note I = reachable_builder_ok[of s0 cfg calls, OF g[THEN conjunct1]]
    from end_ids[OF I(1,2) g[THEN conjunct2, THEN conjunct1] g[THEN conjunct2, THEN conjunct2]]
    show ?thesis by simp
  qed
  show ?thesis
    using std ext stdS extS endS by (intro conjI impI) blast+
qed


theorem range_decomposition_emitted_witness:
  "(0x2FF::u32) \<le> max_std_id \<and> (0x100::u32) \<le> max_std_id \<and>
   (0x2FF::u32) \<le> max_ext_id \<and> (0x100::u32) \<le> max_ext_id \<and>
   bxcan_shape (bxcan_new bxcan_f0) \<and> unat (max_banks bxcan_f0) \<le> 32 \<and>
   std_blocks 0x100 0x2FF = [(0x100, 0x700), (0x200, 0x700)] \<and>
   disjoint_blocks max_std_id [(0x100, 0x700), (0x200, 0x700)] \<and>
   fst (bxcan_add_std_range bxcan_f0 (snd (bxcan_begin bxcan_f0 (bxcan_new bxcan_f0)))
          0x2FF 0x100) = CANFILTER_SUCCESS \<and>
   bxcan_std_ids bxcan_f0
     (snd (bxcan_add_std_range bxcan_f0 (snd (bxcan_begin bxcan_f0 (bxcan_new bxcan_f0)))
             0x2FF 0x100)) = {0x100 .. 0x2FF} \<and>
   fst (bxcan_end bxcan_f0
          (snd (bxcan_add_std_range bxcan_f0 (snd (bxcan_begin bxcan_f0 (bxcan_new bxcan_f0)))
                  0x2FF 0x100))) = CANFILTER_SUCCESS \<and>
   image_std_ids bxcan_f0
     (hw_config (snd (bxcan_end bxcan_f0
          (snd (bxcan_add_std_range bxcan_f0 (snd (bxcan_begin bxcan_f0 (bxcan_new bxcan_f0)))
                  0x2FF 0x100))))) = {0x100 .. 0x2FF} \<and>
   debug_print bxcan_f0
     (hw_config (snd (bxcan_end bxcan_f0
          (snd (bxcan_add_std_range bxcan_f0 (snd (bxcan_begin bxcan_f0 (bxcan_new bxcan_f0)))
                  0x2FF 0x100))))) = [Std_mask_line 0x100 0x1FF 0x200 0x2FF] \<and>
   ext_blocks 0x100 0x2FF = [(0x100, 0x1FFFFF00), (0x200, 0x1FFFFF00)] \<and>
   fst (bxcan_add_ext_range bxcan_f0 (snd (bxcan_begin bxcan_f0 (bxcan_new bxcan_f0)))
          0x2FF 0x100) = CANFILTER_SUCCESS \<and>
   bxcan_ext_ids bxcan_f0
     (snd (bxcan_add_ext_range bxcan_f0 (snd (bxcan_begin bxcan_f0 (bxcan_new bxcan_f0)))
             0x2FF 0x100)) = {0x100 .. 0x2FF}"
proof -
  let ?B = "snd (bxcan_begin bxcan_f0 (bxcan_new bxcan_f0))"
  let ?S = "snd (bxcan_add_std_range bxcan_f0 ?B 0x2FF 0x100)"
  have h: "(0x2FF::u32) \<le> max_std_id \<and> (0x100::u32) \<le> max_std_id"
    "(0x2FF::u32) \<le> max_ext_id \<and> (0x100::u32) \<le> max_ext_id"
    by (simp_all add: max_std_id_def max_ext_id_def)
  have sh: "bxcan_shape (bxcan_new bxcan_f0)" by (simp add: bxcan_shape_def bxcan_new_def)
  have m32: "unat (max_banks bxcan_f0) \<le> 32" by (simp add: bxcan_f0_def)
  have m: "min (0x2FF::u32) 0x100 = 0x100" "max (0x2FF::u32) 0x100 = 0x2FF" by simp_all
  have r0: "bxcan_run bxcan_f0 ?B [] = ?B"
    and r1: "bxcan_run bxcan_f0 ?B [Add_std_range 0x2FF 0x100] = ?S"
    by simp_all
  have fs: "bxcan_add_std_range bxcan_f0 ?B 0x2FF 0x100
      = bxcan_feed_std bxcan_f0 ?B [(0x100, 0x700), (0x200, 0x700)]"
    using bxcan_add_std_range_feed[of "0x2FF" "0x100" bxcan_f0 ?B] h(1)
    unfolding m std_blocks_example by simp
  have fe: "bxcan_add_ext_range bxcan_f0 ?B 0x2FF 0x100
      = bxcan_feed_ext bxcan_f0 ?B [(0x100, 0x1FFFFF00), (0x200, 0x1FFFFF00)]"
    using bxcan_add_ext_range_feed[of "0x2FF" "0x100" bxcan_f0 ?B] h(2)
    unfolding m ext_blocks_example by simp
  have n: "\<not> (14::u32) \<le> 1" by (simp add: word_le_nat_alt)
  have ss: "fst (bxcan_add_std_range bxcan_f0 ?B 0x2FF 0x100) = CANFILTER_SUCCESS"
    unfolding fs
    by (simp add: bxcan_add_std_list_def bxcan_add_std_mask_def bxcan_emit_std_mask_def
        write_bank_def bxcan_begin_def bxcan_new_def bxcan_hw_t_def bxcan_f0_def
        max_std_id_def Let_def n)
  have se: "fst (bxcan_add_ext_range bxcan_f0 ?B 0x2FF 0x100) = CANFILTER_SUCCESS"
    unfolding fe
    by (simp add: bxcan_add_ext_list_def bxcan_add_ext_mask_def bxcan_emit_ext_mask_def
        write_bank_def bxcan_begin_def bxcan_new_def bxcan_hw_t_def bxcan_f0_def
        max_ext_id_def Let_def n)
  have en: "fst (bxcan_end bxcan_f0 ?S) = CANFILTER_SUCCESS"
    and dp: "debug_print bxcan_f0 (hw_config (snd (bxcan_end bxcan_f0 ?S)))
      = [Std_mask_line 0x100 0x1FF 0x200 0x2FF]"
    unfolding fs
    by (simp_all add: bxcan_add_std_list_def bxcan_add_std_mask_def bxcan_emit_std_mask_def
        bxcan_end_def write_bank_def bxcan_begin_def bxcan_new_def bxcan_hw_t_def bxcan_f0_def
        max_std_id_def max_ext_id_def Let_def n debug_print_def debug_print_bank_def
        print_bank_def List.map_filter_def upt_rec)
  note T0 = range_decomposition_emitted[of "0x2FF" "0x100" bxcan_f0 "bxcan_new bxcan_f0" "[]",
      unfolded r0 m]
  note T1 = range_decomposition_emitted[of "0x2FF" "0x100" bxcan_f0 "bxcan_new bxcan_f0"
      "[Add_std_range 0x2FF 0x100]", unfolded r1]
  note Ts = T0[THEN conjunct1, THEN mp, OF h(1)]
  note Te = T0[THEN conjunct2, THEN conjunct1, THEN mp, OF h(2)]
  have g: "bxcan_shape (bxcan_new bxcan_f0) \<and> unat (max_banks bxcan_f0) \<le> 32 \<and>
      fst (bxcan_add_std_range bxcan_f0 ?B 0x2FF 0x100) = CANFILTER_SUCCESS"
    "bxcan_shape (bxcan_new bxcan_f0) \<and> unat (max_banks bxcan_f0) \<le> 32 \<and>
      fst (bxcan_add_ext_range bxcan_f0 ?B 0x2FF 0x100) = CANFILTER_SUCCESS"
    "bxcan_shape (bxcan_new bxcan_f0) \<and> unat (max_banks bxcan_f0) \<le> 32 \<and>
      fst (bxcan_end bxcan_f0 ?S) = CANFILTER_SUCCESS"
    using sh m32 ss se en by simp_all
  have dj: "disjoint_blocks max_std_id [(0x100, 0x700), (0x200, 0x700)]"
    using Ts[THEN conjunct1] unfolding std_blocks_example .
  have istd: "bxcan_std_ids bxcan_f0 ?S = {0x100 .. 0x2FF}"
    using Ts[THEN conjunct2, THEN conjunct2, THEN conjunct2, THEN mp, OF g(1), THEN conjunct1]
    by (simp add: begin_ids)
  have ie: "bxcan_ext_ids bxcan_f0 (snd (bxcan_add_ext_range bxcan_f0 ?B 0x2FF 0x100))
      = {0x100 .. 0x2FF}"
    using Te[THEN conjunct2, THEN conjunct2, THEN conjunct2, THEN mp, OF g(2), THEN conjunct1]
    by (simp add: begin_ids)
  have im: "image_std_ids bxcan_f0 (hw_config (snd (bxcan_end bxcan_f0 ?S))) = {0x100 .. 0x2FF}"
    using T1[THEN conjunct2, THEN conjunct2, THEN mp, OF g(3), THEN conjunct1] istd by simp
  show ?thesis
    using h sh m32 std_blocks_example ext_blocks_example dj ss istd en im dp se ie
    by (intro conjI) simp_all
qed


end
